(* ===== verification/Go_Prelude.thy ===== *)
theory Go_Prelude
  imports Complex_Main "HOL-Library.Mapping" "HOL-Library.List_Lexorder" "HOL-Library.Char_ord"
begin

text \<open>
  Shared vocabulary of the model of \<^verbatim>\<open>src/collector/codis_collector.go\<close>.
  \<^item> \<open>fval\<close>: the float64 values a Prometheus gauge holds. Finite values are kept as
    exact reals (rounding to binary64 is not modelled); \<open>PosInf\<close>, \<open>NegInf\<close> and
    \<open>NaN\<close> are the values \<^verbatim>\<open>strconv.ParseFloat\<close> can also return.
  \<^item> \<open>err\<close>: the Go \<^verbatim>\<open>error\<close> values the collector returns (an early \<^verbatim>\<open>return err\<close>).
  \<^item> \<open>'a go\<close>: a computation that either yields a value or panics (\<open>Inl\<close> carries the
    panic message); every single-value type assertion \<^verbatim>\<open>x.(T)\<close> of the source is one.
  \<^item> \<open>'s outcome\<close>: a computation over a state \<open>'s\<close> that panics, returns an error
    together with the state it has reached (the Go code mutates shared state before
    returning), or finishes normally.
  \<^item> \<open>geach\<close> and \<open>oeach\<close>: a Go \<^verbatim>\<open>for ... range\<close> loop over a list, stopping at the first
    panic or error, and their generic lemmas (append, invariants, absence of panics).
\<close>

named_theorems outcome_simps "equations that run the outcome combinators"

datatype fval = Num real | PosInf | NegInf | NaN

datatype err = HttpGetErr | ReadBodyErr | JsonErr | ParseFloatErr string

type_synonym 'a go = "string + 'a"

datatype 's outcome = Panic string | Err err 's | Ok 's

definition gbind :: "'a go \<Rightarrow> ('a \<Rightarrow> 'b go) \<Rightarrow> 'b go" where
  "gbind m f = (case m of Inl p \<Rightarrow> Inl p | Inr a \<Rightarrow> f a)"

definition gthen :: "'a go \<Rightarrow> ('a \<Rightarrow> 's outcome) \<Rightarrow> 's outcome" where
  "gthen m f = (case m of Inl p \<Rightarrow> Panic p | Inr a \<Rightarrow> f a)"

definition obind :: "'s outcome \<Rightarrow> ('s \<Rightarrow> 's outcome) \<Rightarrow> 's outcome" where
  "obind m f = (case m of Panic p \<Rightarrow> Panic p | Err e s \<Rightarrow> Err e s | Ok s \<Rightarrow> f s)"

fun geach :: "('a \<Rightarrow> 's \<Rightarrow> 's go) \<Rightarrow> 'a list \<Rightarrow> 's \<Rightarrow> 's go" where
  "geach f [] s = Inr s"
| "geach f (x # xs) s = gbind (f x s) (geach f xs)"

fun oeach :: "('a \<Rightarrow> 's \<Rightarrow> 's outcome) \<Rightarrow> 'a list \<Rightarrow> 's \<Rightarrow> 's outcome" where
  "oeach f [] s = Ok s"
| "oeach f (x # xs) s = obind (f x s) (oeach f xs)"

text \<open>The state an outcome carries, if it did not panic.\<close>

fun ostate :: "'s outcome \<Rightarrow> 's option" where
  "ostate (Panic p) = None"
| "ostate (Err e s) = Some s"
| "ostate (Ok s) = Some s"

fun is_panic :: "'s outcome \<Rightarrow> bool" where
  "is_panic (Panic p) = True"
| "is_panic (Err e s) = False"
| "is_panic (Ok s) = False"

subsection \<open>Running the combinators\<close>

lemma gbind_simps [simp, outcome_simps]:
  "gbind (Inl p) f = Inl p" "gbind (Inr a) f = f a"
  by (simp_all add: gbind_def)

lemma gthen_simps [simp, outcome_simps]:
  "gthen (Inl p) f = Panic p" "gthen (Inr a) f = f a"
  by (simp_all add: gthen_def)

lemma obind_simps [simp, outcome_simps]:
  "obind (Panic p) f = Panic p" "obind (Err e s) f = Err e s" "obind (Ok s) f = f s"
  by (simp_all add: obind_def)

lemma obind_Ok_right [simp, outcome_simps]: "obind m Ok = m"
  by (cases m) auto

lemma obind_Ok_iff [outcome_simps]:
  "obind m f = Ok t \<longleftrightarrow> (\<exists>s. m = Ok s \<and> f s = Ok t)"
  by (cases m) auto

lemma obind_Err_iff [outcome_simps]:
  "obind m f = Err e t \<longleftrightarrow> m = Err e t \<or> (\<exists>s. m = Ok s \<and> f s = Err e t)"
  by (cases m) auto

lemma obind_Panic_iff [outcome_simps]:
  "obind m f = Panic p \<longleftrightarrow> m = Panic p \<or> (\<exists>s. m = Ok s \<and> f s = Panic p)"
  by (cases m) auto

lemma gthen_Ok_iff [outcome_simps]:
  "gthen m f = Ok t \<longleftrightarrow> (\<exists>a. m = Inr a \<and> f a = Ok t)"
  by (cases m) auto

lemma gthen_Err_iff [outcome_simps]:
  "gthen m f = Err e t \<longleftrightarrow> (\<exists>a. m = Inr a \<and> f a = Err e t)"
  by (cases m) auto

lemma gbind_Inr_iff [outcome_simps]:
  "gbind m f = Inr b \<longleftrightarrow> (\<exists>a. m = Inr a \<and> f a = Inr b)"
  by (cases m) auto

lemma oeach_append [outcome_simps]:
  "oeach f (xs @ ys) s = obind (oeach f xs s) (oeach f ys)"
  by (induction xs arbitrary: s) (auto simp: obind_def split: outcome.splits)

lemma geach_append [outcome_simps]:
  "geach f (xs @ ys) s = gbind (geach f xs s) (geach f ys)"
  by (induction xs arbitrary: s) (auto simp: gbind_def split: sum.splits)

subsection \<open>Loop invariants\<close>

text \<open>
  An invariant kept by every step that does not panic holds in the state every run of
  the loop stops in, after an error as well as after a normal end.
\<close>

lemma oeach_invariant:
  assumes step: "\<And>x s t. x \<in> set xs \<Longrightarrow> P s \<Longrightarrow> ostate (f x s) = Some t \<Longrightarrow> P t"
    and start: "P s"
    and res: "ostate (oeach f xs s) = Some t"
  shows "P t"
  using step start res
proof (induction xs arbitrary: s)
  case Nil
  then show ?case by simp
next
  case (Cons x xs)
  show ?case
  proof (cases "f x s")
    case (Panic p)
    with Cons.prems(3) show ?thesis by simp
  next
    case (Err e s')
    with Cons.prems show ?thesis by (metis list.set_intros(1) oeach.simps(2) obind_simps(2) ostate.simps(2))
  next
    case (Ok s')
    with Cons.prems(1,2) have "P s'" by (metis list.set_intros(1) ostate.simps(3))
    with Ok Cons.prems(1,3) show ?thesis by (intro Cons.IH) auto
  qed
qed

lemma geach_invariant:
  assumes step: "\<And>x s t. x \<in> set xs \<Longrightarrow> P s \<Longrightarrow> f x s = Inr t \<Longrightarrow> P t"
    and start: "P s"
    and res: "geach f xs s = Inr t"
  shows "P t"
  using step start res
proof (induction xs arbitrary: s)
  case Nil
  then show ?case by simp
next
  case (Cons x xs)
  from Cons.prems(3) obtain s' where s': "f x s = Inr s'" and rest: "geach f xs s' = Inr t"
    by (auto simp: gbind_Inr_iff)
  from Cons.prems(1,2) s' have "P s'" by (meson list.set_intros(1))
  with Cons.prems(1) rest show ?case by (intro Cons.IH) auto
qed

text \<open>A loop whose steps never panic (from states of an invariant) never panics.\<close>

lemma oeach_no_panic:
  assumes step: "\<And>x s. x \<in> set xs \<Longrightarrow> P s \<Longrightarrow> \<not> is_panic (f x s) \<and> (\<forall>t. ostate (f x s) = Some t \<longrightarrow> P t)"
    and start: "P s"
  shows "\<not> is_panic (oeach f xs s)"
  using step start
proof (induction xs arbitrary: s)
  case Nil
  then show ?case by simp
next
  case (Cons x xs)
  then have np: "\<not> is_panic (f x s)" by simp
  show ?case
  proof (cases "f x s")
    case (Panic p)
    with np show ?thesis by simp
  next
    case (Err e s')
    then show ?thesis by simp
  next
    case (Ok s')
    with Cons.prems have "P s'" by (metis list.set_intros(1) ostate.simps(3))
    have "\<not> is_panic (oeach f xs s')"
      using Cons.prems(1) \<open>P s'\<close> by (intro Cons.IH) auto
    with Ok show ?thesis by simp
  qed
qed

lemma geach_no_panic:
  assumes step: "\<And>x s. x \<in> set xs \<Longrightarrow> P s \<Longrightarrow> (\<exists>t. f x s = Inr t \<and> P t)"
    and start: "P s"
  shows "\<exists>t. geach f xs s = Inr t \<and> P t"
  using step start
proof (induction xs arbitrary: s)
  case Nil
  then show ?case by simp
next
  case (Cons x xs)
  then obtain s' where "f x s = Inr s'" and "P s'" by (meson list.set_intros(1))
  with Cons.prems(1) show ?case using Cons.IH [of s'] by auto
qed

text \<open>A loop whose steps never return an error returns none.\<close>

lemma oeach_no_err:
  assumes "\<And>x s e t. x \<in> set xs \<Longrightarrow> f x s \<noteq> Err e t"
  shows "oeach f xs s \<noteq> Err e t"
  using assms
proof (induction xs arbitrary: s)
  case Nil
  then show ?case by simp
next
  case (Cons x xs)
  then show ?case by (cases "f x s") auto
qed

subsection \<open>Splitting a loop at one element\<close>

lemma map_of_split_distinct:
  assumes "map_of xs k = Some v" and "distinct (map fst xs)"
  obtains pre post where "xs = pre @ (k, v) # post" "k \<notin> set (map fst pre)" "k \<notin> set (map fst post)"
proof -
  from assms(1) have "(k, v) \<in> set xs" by (rule map_of_SomeD)
  then obtain pre post where xs: "xs = pre @ (k, v) # post" by (meson split_list)
  with assms(2) have "k \<notin> set (map fst pre)" "k \<notin> set (map fst post)" by auto
  with xs that show ?thesis by blast
qed

lemma oeach_split_Ok:
  "oeach f (pre @ x # post) s = Ok t \<Longrightarrow>
     \<exists>s1 s2. oeach f pre s = Ok s1 \<and> f x s1 = Ok s2 \<and> oeach f post s2 = Ok t"
  by (simp add: oeach_append obind_Ok_iff)

end
