(* ===== verification/Go_Values.thy ===== *)
theory Go_Values
  imports Go_Prelude
begin

text \<open>
  The values \<^verbatim>\<open>encoding/json\<close> decodes into an \<^verbatim>\<open>interface{}\<close> (used by
  \<^verbatim>\<open>scrapeCodisUri\<close>, \<^verbatim>\<open>src/collector/codis_collector.go\<close> lines 194--199), and the
  Go runtime operations the collector applies to them:
  \<^item> \<open>gval\<close>: \<^verbatim>\<open>nil\<close>, \<^verbatim>\<open>bool\<close>, \<^verbatim>\<open>float64\<close>, \<^verbatim>\<open>string\<close>, \<^verbatim>\<open>[]interface{}\<close> and
    \<^verbatim>\<open>map[string]interface{}\<close>. A \<^verbatim>\<open>float64\<close> is kept as its shortest decimal
    representation \<open>GNum m e\<close> (the value \<open>m * 10^e\<close>), which is what Go prints for it.
    A Go map is an association list: its order is the order in which one
    \<^verbatim>\<open>for ... range\<close> visits it (Go randomises it, so every theorem quantifies over
    the list); \<open>wf_gval\<close> says its keys are distinct, as in a decoded map.
  \<^item> \<open>go_index\<close> and \<open>go_has\<close>: \<^verbatim>\<open>m[k]\<close> (the zero value \<^verbatim>\<open>nil\<close> when absent) and
    \<^verbatim>\<open>_, ok := m[k]\<close>.
  \<^item> \<open>as_obj\<close>, \<open>as_arr\<close>, \<open>as_float\<close>, \<open>as_bool\<close>: the single-value type assertions
    \<^verbatim>\<open>x.(T)\<close>, which panic on any other dynamic type (\<^verbatim>\<open>nil\<close> included).
  \<^item> \<open>fmt_val\<close>: \<^verbatim>\<open>fmt.Sprintf("%s", v)\<close>, including the \<^verbatim>\<open>%!s(T=v)\<close> text Go
    produces for a non-string operand and the shortest \<^verbatim>\<open>%v\<close> text of a float.
  \<^item> \<open>unmarshal_obj\<close>: \<^verbatim>\<open>json.Unmarshal\<close> of a syntactically valid body into a
    \<^verbatim>\<open>map[string]interface{}\<close>.
\<close>

datatype gval =
    GNil
  | GBool bool
  | GNum int int
  | GStr string
  | GArr "gval list"
  | GObj "(string \<times> gval) list"

type_synonym gmap = "(string \<times> gval) list"

definition pow10 :: "int \<Rightarrow> real" where
  "pow10 e = (if 0 \<le> e then 10 ^ nat e else 1 / 10 ^ nat (- e))"

definition dec_val :: "int \<Rightarrow> int \<Rightarrow> real" where
  "dec_val m e = of_int m * pow10 e"

fun wf_gval :: "gval \<Rightarrow> bool" where
  "wf_gval (GArr xs) = (\<forall>x \<in> set xs. wf_gval x)"
| "wf_gval (GObj kvs) = (distinct (map fst kvs) \<and> (\<forall>kv \<in> set kvs. wf_gval (snd kv)))"
| "wf_gval _ = True"

subsection \<open>Map access and type assertions\<close>

definition go_index :: "gmap \<Rightarrow> string \<Rightarrow> gval" where
  "go_index m k = (case map_of m k of None \<Rightarrow> GNil | Some v \<Rightarrow> v)"

definition go_has :: "gmap \<Rightarrow> string \<Rightarrow> bool" where
  "go_has m k = (map_of m k \<noteq> None)"

fun go_type :: "gval \<Rightarrow> string" where
  "go_type GNil = ''nil''"
| "go_type (GBool b) = ''bool''"
| "go_type (GNum m e) = ''float64''"
| "go_type (GStr s) = ''string''"
| "go_type (GArr xs) = ''[]interface {}''"
| "go_type (GObj kvs) = ''map[string]interface {}''"

definition conv_panic :: "gval \<Rightarrow> string \<Rightarrow> string" where
  "conv_panic v want = ''interface conversion: interface {} is '' @ go_type v @ '', not '' @ want"

fun as_obj :: "gval \<Rightarrow> gmap go" where
  "as_obj (GObj kvs) = Inr kvs"
| "as_obj v = Inl (conv_panic v ''map[string]interface {}'')"

fun as_arr :: "gval \<Rightarrow> gval list go" where
  "as_arr (GArr xs) = Inr xs"
| "as_arr v = Inl (conv_panic v ''[]interface {}'')"

fun as_float :: "gval \<Rightarrow> real go" where
  "as_float (GNum m e) = Inr (dec_val m e)"
| "as_float v = Inl (conv_panic v ''float64'')"

fun as_bool :: "gval \<Rightarrow> bool go" where
  "as_bool (GBool b) = Inr b"
| "as_bool v = Inl (conv_panic v ''bool'')"

subsection \<open>Decimal digits\<close>

definition digit_char :: "nat \<Rightarrow> char" where
  "digit_char d = ''0123456789'' ! d"

fun nat_digits :: "nat \<Rightarrow> string" where
  "nat_digits n = (if n < 10 then [digit_char n] else nat_digits (n div 10) @ [digit_char (n mod 10)])"

declare nat_digits.simps [simp del]

definition int_digits :: "int \<Rightarrow> string" where
  "int_digits i = (if i < 0 then CHR ''-'' # nat_digits (nat (- i)) else nat_digits (nat i))"

subsection \<open>fmt: the \<open>%v\<close> text of a float and \<open>%s\<close> of any value\<close>

text \<open>
  \<^verbatim>\<open>strconv.FormatFloat(f, 'g', -1, 64)\<close>, which \<^verbatim>\<open>%v\<close> uses: the shortest digits
  \<open>d\<^sub>1\<dots>d\<^sub>n\<close> with decimal exponent \<open>x = n + e - 1\<close>; exponent form
  \<open>d\<^sub>1.d\<^sub>2\<dots>d\<^sub>ne\<plusminus>XX\<close> when \<open>x < -4\<close> or \<open>x \<ge> 6\<close>
  (the precision 6 Go uses for the shortest form), plain decimal otherwise.
\<close>

definition exp_text :: "int \<Rightarrow> string" where
  "exp_text x = CHR ''e'' # (if x < 0 then CHR ''-'' else CHR ''+'') #
     (if \<bar>x\<bar> < 10 then CHR ''0'' # nat_digits (nat \<bar>x\<bar>) else nat_digits (nat \<bar>x\<bar>))"

definition fmt_float_v :: "int \<Rightarrow> int \<Rightarrow> string" where
  "fmt_float_v m e =
     (if m = 0 then ''0'' else
      let ds = nat_digits (nat \<bar>m\<bar>); nd = int (length ds); dp = nd + e; x = dp - 1;
          sgn = (if m < 0 then ''-'' else '''');
          body =
            (if x < -4 \<or> 6 \<le> x then
               (if nd = 1 then ds else take 1 ds @ ''.'' @ drop 1 ds) @ exp_text x
             else if dp \<le> 0 then ''0.'' @ replicate (nat (- dp)) CHR ''0'' @ ds
             else if nd \<le> dp then ds @ replicate (nat (dp - nd)) CHR ''0''
             else take (nat dp) ds @ ''.'' @ drop (nat dp) ds)
      in sgn @ body)"

text \<open>
  \<open>fmt_val outer v\<close> is \<^verbatim>\<open>fmt.Sprintf("%s", v)\<close> when \<open>outer\<close> holds, and the text of
  \<open>v\<close> as an element of a slice or a map otherwise (where a \<^verbatim>\<open>nil\<close> prints as
  \<^verbatim>\<open><nil>\<close>). Map entries are printed in sorted key order, as \<^verbatim>\<open>fmt\<close> does.
\<close>

fun join_sp :: "string list \<Rightarrow> string" where
  "join_sp [] = []"
| "join_sp [x] = x"
| "join_sp (x # xs) = x @ '' '' @ join_sp xs"

fun fmt_val :: "bool \<Rightarrow> gval \<Rightarrow> string" where
  "fmt_val outer GNil = (if outer then ''%!s(<nil>)'' else ''<nil>'')"
| "fmt_val outer (GBool b) = ''%!s(bool='' @ (if b then ''true'' else ''false'') @ '')''"
| "fmt_val outer (GNum m e) = ''%!s(float64='' @ fmt_float_v m e @ '')''"
| "fmt_val outer (GStr s) = s"
| "fmt_val outer (GArr xs) = ''['' @ join_sp (map (fmt_val False) xs) @ '']''"
| "fmt_val outer (GObj kvs) =
     ''map['' @ join_sp
        (map (\<lambda>kv. fst kv @ '':'' @ fmt_val False (snd kv)) (sort_key fst kvs)) @ '']''"

abbreviation fmt_s :: "gval \<Rightarrow> string" where
  "fmt_s v \<equiv> fmt_val True v"

subsection \<open>Decoding\<close>

text \<open>
  \<^verbatim>\<open>json.Unmarshal(body, &result)\<close> with \<^verbatim>\<open>result map[string]interface{}\<close>: an object
  decodes to its map, \<^verbatim>\<open>null\<close> leaves \<^verbatim>\<open>result\<close> a nil map without error, any
  other JSON value is an \<^verbatim>\<open>UnmarshalTypeError\<close>.
\<close>

fun unmarshal_obj :: "gval \<Rightarrow> gmap option" where
  "unmarshal_obj (GObj kvs) = Some kvs"
| "unmarshal_obj GNil = Some []"
| "unmarshal_obj v = None"

subsection \<open>Lemmas\<close>

lemma go_index_has: "go_has m k \<Longrightarrow> map_of m k = Some (go_index m k)"
  by (auto simp: go_has_def go_index_def)

lemma go_index_absent [simp]: "map_of m k = None \<Longrightarrow> go_index m k = GNil"
  by (simp add: go_index_def)

lemma as_obj_Inr_iff [simp]: "as_obj v = Inr kvs \<longleftrightarrow> v = GObj kvs"
  by (cases v) auto

lemma as_arr_Inr_iff [simp]: "as_arr v = Inr xs \<longleftrightarrow> v = GArr xs"
  by (cases v) auto

lemma as_float_Inr_iff [simp]: "as_float v = Inr r \<longleftrightarrow> (\<exists>m e. v = GNum m e \<and> r = dec_val m e)"
  by (cases v) auto

lemma as_bool_Inr_iff [simp]: "as_bool v = Inr b \<longleftrightarrow> v = GBool b"
  by (cases v) auto

lemma as_obj_nil [simp]: "\<exists>p. as_obj GNil = Inl p"
  by simp

lemma of_char_digit_char [simp]: "d < 10 \<Longrightarrow> of_char (digit_char d) = (48 + d :: nat)"
  by (auto simp: digit_char_def less_Suc_eq numeral_eq_Suc)

lemma digit_char_is_digit: "d < 10 \<Longrightarrow> CHR ''0'' \<le> digit_char d \<and> digit_char d \<le> CHR ''9''"
  by (simp add: less_eq_char_def)

lemma nat_digits_nonempty [simp]: "nat_digits n \<noteq> []"
  by (subst nat_digits.simps) simp

lemma nat_digits_all_digits: "c \<in> set (nat_digits n) \<Longrightarrow> CHR ''0'' \<le> c \<and> c \<le> CHR ''9''"
proof (induction n rule: nat_digits.induct)
  case (1 n)
  show ?case
  proof (cases "n < 10")
    case True
    with "1.prems" show ?thesis by (simp add: nat_digits.simps [of n] digit_char_is_digit)
  next
    case False
    with "1.prems" "1.IH" show ?thesis by (auto simp: nat_digits.simps [of n] digit_char_is_digit)
  qed
qed

lemma replicate_numeral_Cons [simp]: "replicate (numeral k) x = x # replicate (pred_numeral k) x"
  by (simp add: numeral_eq_Suc)

lemmas fmt_eval = fmt_float_v_def exp_text_def nat_digits.simps digit_char_def

lemma fmt_s_GStr [simp]: "fmt_s (GStr s) = s"
  by simp

end
