(* ===== verification/Parse_Float.thy ===== *)
theory Parse_Float
  imports Go_Values
begin

text \<open>
  \<^verbatim>\<open>strconv.ParseFloat(s, 64)\<close>, which \<^verbatim>\<open>scrapeCodisUri\<close> applies to the text of every
  catalog field of a storage node (\<^verbatim>\<open>src/collector/codis_collector.go\<close> line 211).
  It is a library routine the collector only calls; the model follows the Go library's
  \<^verbatim>\<open>special\<close> and \<^verbatim>\<open>readFloat\<close>:
  \<^item> the whole string must be consumed; no surrounding blanks;
  \<^item> \<^verbatim>\<open>inf\<close> and \<^verbatim>\<open>infinity\<close> in any case, with an optional sign, give an
    infinity; \<^verbatim>\<open>nan\<close> in any case and without sign gives NaN;
  \<^item> otherwise an optional sign, decimal digits with at most one point and at least one
    digit, and an optional exponent \<^verbatim>\<open>e\<close>/\<^verbatim>\<open>E\<close> with an optional sign and at least
    one digit;
  \<^item> a value that rounds beyond the largest binary64 is an \<^verbatim>\<open>ErrRange\<close> error, which
    the collector treats like any other error.
  Not modelled: hexadecimal mantissas and underscores (the model rejects them, Go
  accepts \<^verbatim>\<open>0x1p-2\<close>); rounding to binary64 (finite results are the exact decimal
  value).
\<close>

definition is_digit :: "char \<Rightarrow> bool" where
  "is_digit c \<longleftrightarrow> CHR ''0'' \<le> c \<and> c \<le> CHR ''9''"

definition digits_nat :: "string \<Rightarrow> nat" where
  "digits_nat ds = foldl (\<lambda>n c. 10 * n + (of_char c - 48)) 0 ds"

definition lower :: "char \<Rightarrow> char" where
  "lower c = (case map_of (zip ''ABCDEFGHIJKLMNOPQRSTUVWXYZ'' ''abcdefghijklmnopqrstuvwxyz'') c of
                Some l \<Rightarrow> l | None \<Rightarrow> c)"

text \<open>An optional leading sign: whether it is a minus, and the rest.\<close>

fun split_sign :: "string \<Rightarrow> bool \<times> string" where
  "split_sign (c # s) =
     (if c = CHR ''+'' then (False, s) else if c = CHR ''-'' then (True, s) else (False, c # s))"
| "split_sign [] = (False, [])"

definition special :: "string \<Rightarrow> fval option" where
  "special s =
     (let (neg, t) = split_sign s; lt = map lower t in
      if lt = ''inf'' \<or> lt = ''infinity'' then Some (if neg then NegInf else PosInf)
      else if map lower s = ''nan'' then Some NaN
      else None)"

text \<open>The exponent part: empty, or \<^verbatim>\<open>e\<close>, an optional sign and one digit or more.\<close>

fun read_exp :: "string \<Rightarrow> int option" where
  "read_exp [] = Some 0"
| "read_exp (c # s) =
     (if lower c = CHR ''e'' then
        (let (neg, t) = split_sign s in
         if t \<noteq> [] \<and> list_all is_digit t
         then Some (if neg then - int (digits_nat t) else int (digits_nat t)) else None)
      else None)"

definition read_decimal :: "string \<Rightarrow> real option" where
  "read_decimal s =
     (let (neg, s1) = split_sign s;
          ip = takeWhile is_digit s1; s2 = dropWhile is_digit s1;
          (fp, s3) = (case s2 of
                        c # t \<Rightarrow> if c = CHR ''.'' then (takeWhile is_digit t, dropWhile is_digit t)
                                 else ([], s2)
                      | [] \<Rightarrow> ([], []))
      in if ip @ fp = [] then None
         else (case read_exp s3 of
                 None \<Rightarrow> None
               | Some x \<Rightarrow>
                   Some ((if neg then -1 else 1) * of_nat (digits_nat (ip @ fp)) * pow10 (x - int (length fp)))))"

text \<open>
  The least magnitude that rounds to infinity in binary64: halfway between the largest
  finite value \<open>(2 - 2\<^sup>-\<^sup>5\<^sup>2) * 2\<^sup>1\<^sup>0\<^sup>2\<^sup>3\<close> and \<open>2\<^sup>1\<^sup>0\<^sup>2\<^sup>4\<close>
  (ties go to the even neighbour, which is \<open>2\<^sup>1\<^sup>0\<^sup>2\<^sup>4\<close>).
\<close>

definition float_overflow :: "real \<Rightarrow> bool" where
  "float_overflow r \<longleftrightarrow> 2 ^ 1024 - 2 ^ 970 \<le> \<bar>r\<bar>"

definition parse_float :: "string \<Rightarrow> fval option" where
  "parse_float s =
     (case special s of
        Some v \<Rightarrow> Some v
      | None \<Rightarrow> (case read_decimal s of
                  None \<Rightarrow> None
                | Some r \<Rightarrow> if float_overflow r then None else Some (Num r)))"

subsection \<open>Lemmas\<close>

lemmas parse_eval = parse_float_def special_def lower_def read_decimal_def digits_nat_def
  is_digit_def pow10_def float_overflow_def Let_def

lemma is_digit_digit_char: "d < 10 \<Longrightarrow> is_digit (digit_char d)"
  by (simp add: is_digit_def digit_char_is_digit)

lemma nat_digits_is_digit: "list_all is_digit (nat_digits n)"
  by (auto simp: list_all_iff is_digit_def dest: nat_digits_all_digits)

lemma digits_nat_snoc: "digits_nat (ds @ [c]) = 10 * digits_nat ds + (of_char c - 48)"
  by (simp add: digits_nat_def)

lemma digits_nat_nat_digits [simp]: "digits_nat (nat_digits n) = n"
proof (induction n rule: nat_digits.induct)
  case (1 n)
  show ?case
  proof (cases "n < 10")
    case True
    then show ?thesis by (simp add: nat_digits.simps [of n] digits_nat_def)
  next
    case False
    then have "digits_nat (nat_digits n) = 10 * digits_nat (nat_digits (n div 10)) + n mod 10"
      by (simp add: nat_digits.simps [of n] digits_nat_snoc)
    with False "1.IH" show ?thesis by simp
  qed
qed

lemma lower_digit: "is_digit c \<Longrightarrow> lower c = c"
proof -
  assume d: "is_digit c"
  have "c \<notin> set ''ABCDEFGHIJKLMNOPQRSTUVWXYZ''"
    using d by (auto simp: is_digit_def less_eq_char_def)
  then show ?thesis by (simp add: lower_def)
qed

lemma special_digits: "s \<noteq> [] \<Longrightarrow> is_digit (hd s) \<Longrightarrow> special s = None"
proof (cases s)
  case (Cons c t)
  assume d: "is_digit (hd s)"
  with Cons have lc: "lower c = c" by (simp add: lower_digit)
  from d Cons have "c \<noteq> CHR ''+''" "c \<noteq> CHR ''-''" "c \<noteq> CHR ''i''" "c \<noteq> CHR ''n''"
    by (auto simp: is_digit_def less_eq_char_def)
  with Cons lc show ?thesis by (auto simp: special_def)
qed simp

lemma read_decimal_digits:
  assumes "ds \<noteq> []" and "list_all is_digit ds"
  shows "read_decimal ds = Some (of_nat (digits_nat ds))"
proof -
  have sign: "split_sign ds = (False, ds)"
    using assms by (cases ds) (auto simp: is_digit_def less_eq_char_def)
  have tw: "takeWhile is_digit ds = ds" and dw: "dropWhile is_digit ds = []"
    using assms(2) by (simp_all add: list_all_iff)
  show ?thesis using assms(1) by (simp add: read_decimal_def pow10_def Let_def sign tw dw)
qed

lemma parse_float_bad_start:
  assumes "c = CHR ''%'' \<or> c = CHR ''['' \<or> c = CHR ''m''"
  shows "parse_float (c # rest) = None"
proof -
  have l: "lower c = c" using assms by (elim disjE) (simp_all add: lower_def)
  have "c \<noteq> CHR ''i''" "c \<noteq> CHR ''n''" "c \<noteq> CHR ''+''" "c \<noteq> CHR ''-''"
    using assms by (elim disjE; simp)+
  with l have sp: "special (c # rest) = None" by (simp add: special_def)
  have "\<not> is_digit c" "c \<noteq> CHR ''.''"
    using assms by (elim disjE; simp add: is_digit_def)+
  with \<open>c \<noteq> CHR ''+''\<close> \<open>c \<noteq> CHR ''-''\<close> have "read_decimal (c # rest) = None"
    by (simp add: read_decimal_def)
  with sp show ?thesis by (simp add: parse_float_def)
qed

lemma fmt_s_non_string:
  "(\<forall>s. v \<noteq> GStr s) \<Longrightarrow> \<exists>c rest. fmt_s v = c # rest \<and> (c = CHR ''%'' \<or> c = CHR ''['' \<or> c = CHR ''m'')"
  by (cases v) auto

lemma parse_float_fmt_non_string: "(\<forall>s. v \<noteq> GStr s) \<Longrightarrow> parse_float (fmt_s v) = None"
  using fmt_s_non_string parse_float_bad_start by metis

lemma nat_digits_not_overflow:
  assumes "n < 2 ^ 1000"
  shows "parse_float (nat_digits n) = Some (Num (of_nat n))"
proof -
  have ne: "nat_digits n \<noteq> []" by (rule nat_digits_nonempty)
  have d: "list_all is_digit (nat_digits n)" by (rule nat_digits_is_digit)
  then have "is_digit (hd (nat_digits n))" using ne by (cases "nat_digits n") simp_all
  with ne have "special (nat_digits n) = None" by (rule special_digits)
  moreover have "read_decimal (nat_digits n) = Some (of_nat n)" using read_decimal_digits [OF ne d] by simp
  moreover have "\<not> float_overflow (of_nat n)"
  proof -
    have "(of_nat n :: real) < 2 ^ 1000" using assms by (metis of_nat_less_iff of_nat_numeral of_nat_power)
    also have "(2 :: real) ^ 1000 \<le> 2 ^ 1024 - 2 ^ 970" by simp
    finally show ?thesis by (simp add: float_overflow_def)
  qed
  ultimately show ?thesis by (simp add: parse_float_def)
qed

end
