(* ===== verification/Registry.thy ===== *)
theory Registry
  imports Go_Values
begin

text \<open>
  The metric registry of the exporter, \<^verbatim>\<open>Exporter.metrics\<close> of
  \<^verbatim>\<open>src/collector/codis_collector.go\<close>: a Go map from metric name to a
  \<^verbatim>\<open>*prometheus.GaugeVec\<close>.
  \<^item> \<open>gauge_vec\<close>: a gauge vector, its fully qualified name, help text, label names
    and samples (a map from label values to the value last set).
  \<^item> \<open>metric_map\<close>, \<open>proxy_metric_map\<close>: the static catalog (lines 40--88), in source
    order.
  \<^item> \<open>init_gauges\<close>: \<^verbatim>\<open>initGauges\<close> (lines 90--115), a fresh vector for every catalog
    name and for \<^verbatim>\<open>redis_role\<close>.
  \<^item> \<open>gauge_set\<close>: \<^verbatim>\<open>e.metrics[name].WithLabelValues(vs...).Set(v)\<close>, which panics on
    a missing vector (a nil pointer) or a wrong number of label values.
  \<^item> \<open>gauge_set_with\<close>: \<^verbatim>\<open>e.metrics[name].With(labels).Set(v)\<close> (line 381).
  \<^item> \<open>ensure_adhoc\<close>: the creation of a missing ad hoc vector in \<^verbatim>\<open>setMetrics\<close>
    (lines 372--379), without its lock, which \<open>Exporter\<close> models.
  \<^item> \<open>collect_metrics\<close>: \<^verbatim>\<open>collectMetrics\<close> (lines 385--389), every sample of every vector.
  Go visits \<^verbatim>\<open>metricMap\<close> and \<^verbatim>\<open>e.metrics\<close> in a random order; the names are distinct,
  so the registry built does not depend on it, and the samples are listed in name order.
  The lemmas give the content of \<open>init_gauges\<close>, the effect of one \<open>gauge_set\<close> on
  keys, labels and samples, and what \<open>collect_metrics\<close> lists for a registry whose
  maps are finite (\<open>reg_finite\<close>, true of every registry the exporter builds).
\<close>

record gauge_vec =
  gv_name :: string
  gv_help :: string
  gv_labels :: "string list"
  gv_samples :: "(string list, fval) mapping"

type_synonym registry = "(string, gauge_vec) mapping"

text \<open>\<^verbatim>\<open>prometheus.BuildFQName(namespace, "", name)\<close>.\<close>

definition build_fq_name :: "string \<Rightarrow> string \<Rightarrow> string" where
  "build_fq_name ns name = (if name = [] then [] else if ns \<noteq> [] then ns @ ''_'' @ name else name)"

definition new_gauge_vec :: "string \<Rightarrow> string \<Rightarrow> string \<Rightarrow> string list \<Rightarrow> gauge_vec" where
  "new_gauge_vec ns name help labels =
     \<lparr>gv_name = build_fq_name ns name, gv_help = help, gv_labels = labels, gv_samples = Mapping.empty\<rparr>"

definition codis_namespace :: string where
  "codis_namespace = ''codis''"

definition metric_map :: "(string \<times> string) list" where
  "metric_map =
    [(''state'', ''redis_replication_state''),
     (''blocked_clients'', ''redis_blocked_clients''),
     (''client_biggest_input_buf'', ''redis_client_biggest_input_buf''),
     (''client_longest_output_list'', ''redis_client_longest_output_list''),
     (''connected_client'', ''redis_connected_client''),
     (''instantaneous_input_kbps'', ''redis_instantaneous_input_kbps''),
     (''instantaneous_ops_per_sec'', ''redis_instantaneous_ops_per_sec''),
     (''instantaneous_output_kbps'', ''redis_instantaneous_output_kbps''),
     (''keys'', ''redis_keys''),
     (''rejected_connections'', ''redis_rejected_connections''),
     (''repl_backlog_active'', ''redis_repl_backlog_active''),
     (''repl_backlog_size'', ''redis_repl_backlog_size''),
     (''evicted_keys'', ''redis_evicted_keys''),
     (''expired_keys'', ''redis_expired_keys''),
     (''maxmemory'', ''redis_maxmemory''),
     (''used_memory'', ''redis_used_memory''),
     (''total_commands_processed'', ''redis_total_commands_processed''),
     (''total_connections_received'', ''redis_total_connections_received''),
     (''total_net_input_bytes'', ''redis_total_net_input_bytes''),
     (''total_net_output_bytes'', ''redis_total_net_output_bytes''),
     (''keyspace_hits'', ''redis_keyspace_hits''),
     (''keyspace_misses'', ''redis_keyspace_misses''),
     (''used_cpu_sys'', ''redis_used_cpu_sys''),
     (''used_cpu_sys_children'', ''redis_used_cpu_sys_children''),
     (''used_cpu_user'', ''redis_used_cpu_user''),
     (''used_cpu_user_children'', ''redis_used_cpu_user_children'')]"

definition proxy_metric_map :: "(string \<times> string) list" where
  "proxy_metric_map =
    [(''online'', ''proxy_online''),
     (''ops_total'', ''proxy_ops_total''),
     (''ops_fails'', ''proxy_ops_fails''),
     (''ops_errors'', ''proxy_ops_redis_errors''),
     (''ops_qps'', ''proxy_ops_qps''),
     (''sessions_total'', ''proxy_sessions_total''),
     (''sessions_alive'', ''proxy_sessions_alive''),
     (''rusage_cpu'', ''proxy_rusage_cpu''),
     (''rusage_mem'', ''proxy_rusage_mem''),
     (''rusage_raw_num_threads'', ''proxy_rusage_raw_num_threads''),
     (''rusage_raw_vm_size'', ''proxy_rusage_raw_vm_size''),
     (''rusage_raw_vm_rss'', ''proxy_rusage_raw_vm_rss'')]"

definition redis_labels :: "string list" where
  "redis_labels = [''codis_addr'', ''redis_addr'']"

definition proxy_labels :: "string list" where
  "proxy_labels = [''codis_addr'', ''proxy_addr'']"

definition role_labels :: "string list" where
  "role_labels = [''codis_addr'', ''redis_addr'', ''redis_role'']"

definition init_gauges :: registry where
  "init_gauges =
     (let m1 = fold (\<lambda>name m. Mapping.update name
                 (new_gauge_vec codis_namespace name (''the '' @ name @ '' of codis'') redis_labels) m)
                 (map snd metric_map) Mapping.empty;
          m2 = fold (\<lambda>name m. Mapping.update name
                 (new_gauge_vec codis_namespace name (''the '' @ name @ '' of codis proxy'') proxy_labels) m)
                 (map snd proxy_metric_map) m1
      in Mapping.update ''redis_role''
           (new_gauge_vec codis_namespace ''redis_role'' ''The redis role of codis'' role_labels) m2)"

definition nil_deref :: string where
  "nil_deref = ''runtime error: invalid memory address or nil pointer dereference''"

definition bad_cardinality :: string where
  "bad_cardinality = ''inconsistent label cardinality''"

definition gauge_set :: "string \<Rightarrow> string list \<Rightarrow> fval \<Rightarrow> registry \<Rightarrow> registry go" where
  "gauge_set name lvs v reg =
     (case Mapping.lookup reg name of
        None \<Rightarrow> Inl nil_deref
      | Some gv \<Rightarrow>
          if length lvs \<noteq> length (gv_labels gv) then Inl bad_cardinality
          else Inr (Mapping.update name (gv\<lparr>gv_samples := Mapping.update lvs v (gv_samples gv)\<rparr>) reg))"

definition gauge_set_with :: "string \<Rightarrow> (string \<times> string) list \<Rightarrow> fval \<Rightarrow> registry \<Rightarrow> registry go" where
  "gauge_set_with name labels v reg =
     (case Mapping.lookup reg name of
        None \<Rightarrow> Inl nil_deref
      | Some gv \<Rightarrow>
          if length labels \<noteq> length (gv_labels gv) \<or> (\<exists>l \<in> set (gv_labels gv). map_of labels l = None)
          then Inl bad_cardinality
          else gauge_set name (map (\<lambda>l. the (map_of labels l)) (gv_labels gv)) v reg)"

definition ensure_adhoc :: "string \<Rightarrow> string \<Rightarrow> registry \<Rightarrow> registry" where
  "ensure_adhoc ns name reg =
     (if Mapping.lookup reg name = None then Mapping.update name (new_gauge_vec ns name [] [''addr'']) reg
      else reg)"

type_synonym sample = "string \<times> (string \<times> string) list \<times> fval"

definition vec_samples :: "gauge_vec \<Rightarrow> sample list" where
  "vec_samples gv =
     map (\<lambda>lvs. (gv_name gv, zip (gv_labels gv) lvs, the (Mapping.lookup (gv_samples gv) lvs)))
       (Mapping.ordered_keys (gv_samples gv))"

definition collect_metrics :: "registry \<Rightarrow> sample list" where
  "collect_metrics reg = concat (map (\<lambda>n. vec_samples (the (Mapping.lookup reg n))) (Mapping.ordered_keys reg))"

text \<open>The value a vector holds for a label tuple, if any.\<close>

definition sample_of :: "registry \<Rightarrow> string \<Rightarrow> string list \<Rightarrow> fval option" where
  "sample_of reg name lvs = Option.bind (Mapping.lookup reg name) (\<lambda>gv. Mapping.lookup (gv_samples gv) lvs)"

text \<open>
  A registry whose maps are finite, as every map built by a Go program is; on such a
  registry \<open>collect_metrics\<close> lists every sample.
\<close>

definition reg_finite :: "registry \<Rightarrow> bool" where
  "reg_finite reg \<longleftrightarrow> finite (Mapping.keys reg) \<and>
     (\<forall>n \<in> Mapping.keys reg. finite (Mapping.keys (gv_samples (the (Mapping.lookup reg n)))))"

subsection \<open>Building the catalog\<close>

lemma lookup_fold_update:
  "Mapping.lookup (fold (\<lambda>n m. Mapping.update n (f n) m) ns m) k =
     (if k \<in> set ns then Some (f k) else Mapping.lookup m k)"
  by (induction ns arbitrary: m) (auto simp: lookup_update')

lemma keys_fold_update:
  "Mapping.keys (fold (\<lambda>n m. Mapping.update n (f n) m) ns m) = set ns \<union> Mapping.keys m"
  by (induction ns arbitrary: m) auto

text \<open>
  What \<open>init_gauges\<close> holds under each name: the role vector, a proxy vector, a
  storage-node vector, or nothing; later loops of \<^verbatim>\<open>initGauges\<close> overwrite earlier ones.
\<close>

lemma lookup_init_gauges:
  "Mapping.lookup init_gauges k =
     (if k = ''redis_role'' then
        Some (new_gauge_vec codis_namespace ''redis_role'' ''The redis role of codis'' role_labels)
      else if k \<in> set (map snd proxy_metric_map) then
        Some (new_gauge_vec codis_namespace k (''the '' @ k @ '' of codis proxy'') proxy_labels)
      else if k \<in> set (map snd metric_map) then
        Some (new_gauge_vec codis_namespace k (''the '' @ k @ '' of codis'') redis_labels)
      else None)"
  by (simp add: init_gauges_def lookup_fold_update lookup_update' Let_def)

lemma keys_init_gauges:
  "Mapping.keys init_gauges = set (map snd metric_map) \<union> set (map snd proxy_metric_map) \<union> {''redis_role''}"
  by (auto simp: init_gauges_def keys_fold_update Let_def)

lemma init_gauges_samples_empty:
  "Mapping.lookup init_gauges k = Some gv \<Longrightarrow> gv_samples gv = Mapping.empty"
  by (auto simp: lookup_init_gauges new_gauge_vec_def split: if_splits)

lemma sample_of_init_gauges [simp]: "sample_of init_gauges n l = None"
  by (cases "Mapping.lookup init_gauges n") (simp_all add: sample_of_def init_gauges_samples_empty)

lemmas reg_eval = gauge_set_def gauge_set_with_def lookup_init_gauges new_gauge_vec_def build_fq_name_def
  codis_namespace_def redis_labels_def proxy_labels_def role_labels_def metric_map_def proxy_metric_map_def
  lookup_update' sample_of_def ensure_adhoc_def

subsection \<open>Setting a sample\<close>

lemma gauge_set_Ok_iff:
  "gauge_set name lvs v reg = Inr reg' \<longleftrightarrow>
     (\<exists>gv. Mapping.lookup reg name = Some gv \<and> length lvs = length (gv_labels gv) \<and>
        reg' = Mapping.update name (gv\<lparr>gv_samples := Mapping.update lvs v (gv_samples gv)\<rparr>) reg)"
  by (auto simp: gauge_set_def split: option.splits)

lemma gauge_set_ok:
  "Mapping.lookup reg name = Some gv \<Longrightarrow> length lvs = length (gv_labels gv) \<Longrightarrow>
     gauge_set name lvs v reg = Inr (Mapping.update name (gv\<lparr>gv_samples := Mapping.update lvs v (gv_samples gv)\<rparr>) reg)"
  by (simp add: gauge_set_def)

lemma gauge_set_keys:
  "gauge_set name lvs v reg = Inr reg' \<Longrightarrow> Mapping.keys reg' = Mapping.keys reg"
proof -
  assume "gauge_set name lvs v reg = Inr reg'"
  then obtain g where "Mapping.lookup reg name = Some g" and "Mapping.keys reg' = insert name (Mapping.keys reg)"
    by (auto simp: gauge_set_Ok_iff)
  then show ?thesis by (auto simp: keys_dom_lookup)
qed

lemma gauge_set_labels:
  "gauge_set name lvs v reg = Inr reg' \<Longrightarrow>
     map_option gv_labels (Mapping.lookup reg' n) = map_option gv_labels (Mapping.lookup reg n)"
  by (auto simp: gauge_set_Ok_iff lookup_update')

lemma sample_of_gauge_set:
  "gauge_set name lvs v reg = Inr reg' \<Longrightarrow>
     sample_of reg' n ls = (if n = name \<and> ls = lvs then Some v else sample_of reg n ls)"
  by (auto simp: gauge_set_Ok_iff sample_of_def lookup_update')

lemma reg_finite_init_gauges: "reg_finite init_gauges"
  by (auto simp: reg_finite_def keys_init_gauges lookup_init_gauges new_gauge_vec_def)

lemma reg_finite_ensure_adhoc: "reg_finite reg \<Longrightarrow> reg_finite (ensure_adhoc ns name reg)"
  by (auto simp: reg_finite_def ensure_adhoc_def new_gauge_vec_def lookup_update' split: if_splits)

lemma gauge_set_reg_finite:
  assumes "reg_finite reg" and "gauge_set name lvs v reg = Inr reg'"
  shows "reg_finite reg'"
proof -
  obtain gv where gv: "Mapping.lookup reg name = Some gv"
    and r': "reg' = Mapping.update name (gv\<lparr>gv_samples := Mapping.update lvs v (gv_samples gv)\<rparr>) reg"
    using assms(2) by (auto simp: gauge_set_Ok_iff)
  have "name \<in> Mapping.keys reg" using gv by (simp add: keys_is_none_rep)
  with assms(1) gv have "finite (Mapping.keys (gv_samples gv))" by (auto simp: reg_finite_def)
  with assms(1) show ?thesis by (auto simp: r' reg_finite_def lookup_update')
qed

lemma collect_metrics_set:
  assumes "reg_finite reg"
  shows "set (collect_metrics reg) =
           {(gv_name gv, zip (gv_labels gv) lvs, v) | n gv lvs v.
              Mapping.lookup reg n = Some gv \<and> Mapping.lookup (gv_samples gv) lvs = Some v}"
proof -
  have vs: "set (vec_samples gv) = {(gv_name gv, zip (gv_labels gv) lvs, v) | lvs v. Mapping.lookup (gv_samples gv) lvs = Some v}"
    if "finite (Mapping.keys (gv_samples gv))" for gv
    using that by (auto simp: vec_samples_def keys_dom_lookup)
  have "set (collect_metrics reg) = (\<Union>n \<in> Mapping.keys reg. set (vec_samples (the (Mapping.lookup reg n))))"
    using assms by (simp add: collect_metrics_def reg_finite_def)
  also have "\<dots> = (\<Union>n \<in> Mapping.keys reg. {(gv_name (the (Mapping.lookup reg n)), zip (gv_labels (the (Mapping.lookup reg n))) lvs, v)
      | lvs v. Mapping.lookup (gv_samples (the (Mapping.lookup reg n))) lvs = Some v})"
    using assms by (simp add: reg_finite_def vs)
  also have "\<dots> = {(gv_name gv, zip (gv_labels gv) lvs, v) | n gv lvs v.
      Mapping.lookup reg n = Some gv \<and> Mapping.lookup (gv_samples gv) lvs = Some v}"
  proof (intro equalityI subsetI)
    fix x
    assume "x \<in> (\<Union>n \<in> Mapping.keys reg. {(gv_name (the (Mapping.lookup reg n)), zip (gv_labels (the (Mapping.lookup reg n))) lvs, v)
      | lvs v. Mapping.lookup (gv_samples (the (Mapping.lookup reg n))) lvs = Some v})"
    then obtain n lvs v where n: "n \<in> Mapping.keys reg"
      and x: "x = (gv_name (the (Mapping.lookup reg n)), zip (gv_labels (the (Mapping.lookup reg n))) lvs, v)"
      and l: "Mapping.lookup (gv_samples (the (Mapping.lookup reg n))) lvs = Some v" by blast
    from n obtain gv where "Mapping.lookup reg n = Some gv" by (auto simp: keys_dom_lookup)
    with x l show "x \<in> {(gv_name gv, zip (gv_labels gv) lvs, v) | n gv lvs v.
      Mapping.lookup reg n = Some gv \<and> Mapping.lookup (gv_samples gv) lvs = Some v}" by auto
  next
    fix x
    assume "x \<in> {(gv_name gv, zip (gv_labels gv) lvs, v) | n gv lvs v.
      Mapping.lookup reg n = Some gv \<and> Mapping.lookup (gv_samples gv) lvs = Some v}"
    then obtain n gv lvs v where x: "x = (gv_name gv, zip (gv_labels gv) lvs, v)"
      and g: "Mapping.lookup reg n = Some gv" and l: "Mapping.lookup (gv_samples gv) lvs = Some v" by blast
    from g have "n \<in> Mapping.keys reg" by (simp add: keys_is_none_rep)
    with x g l show "x \<in> (\<Union>n \<in> Mapping.keys reg. {(gv_name (the (Mapping.lookup reg n)), zip (gv_labels (the (Mapping.lookup reg n))) lvs, v)
      | lvs v. Mapping.lookup (gv_samples (the (Mapping.lookup reg n))) lvs = Some v})" by force
  qed
  finally show ?thesis .
qed

end
