(* ===== verification/Navigator.thy ===== *)
theory Navigator
  imports Parse_Float Registry
begin

text \<open>
  The stat tree navigator: the body of \<^verbatim>\<open>scrapeCodisUri\<close>
  (\<^verbatim>\<open>src/collector/codis_collector.go\<close> lines 200--366) after the body has been decoded.
  Every operation takes the endpoint address \<open>addr\<close> and the registry and returns a
  \<open>registry outcome\<close>: a panic (a failed type assertion or a failed
  \<^verbatim>\<open>WithLabelValues\<close>), an error with the registry as far as it was written, or the
  registry written.
  \<^item> \<open>doc_sections\<close>: the four assertions before the read lock (lines 200--203).
  \<^item> \<open>redis_field\<close>, \<open>redis_server\<close>, \<open>scrape_redis_stats\<close>: the storage-node loop
    (lines 205--224).
  \<^item> \<open>repl_state_entry\<close> \<dots> \<open>build_repl_map\<close>, \<open>emit_repl\<close>: the replication map
    (lines 225--259); the loop-carried variable \<^verbatim>\<open>server\<close> is threaded through the
    loops over a model's descriptors, as in the source.
  \<^item> \<open>proxy_model_entry\<close>, \<open>build_token_map\<close>: the token map (lines 260--275), with
    the loop-carried \<^verbatim>\<open>token\<close> and \<^verbatim>\<open>proxyAddr\<close>.
  \<^item> \<open>set_asserted\<close>, \<open>set_guarded\<close>, \<open>proxy_online\<close> \<dots> \<open>proxy_stat_entry\<close>,
    \<open>scrape_proxy_stats\<close>: the proxy statistics (lines 276--364).
  \<^item> \<open>scrape_body\<close>: lines 205--366 in order.
  The lemmas: \<open>outcome_ok W P m\<close> (every write of \<open>m\<close> is allowed by the footprint
  \<open>W\<close>, and \<open>P\<close> survives the run) is built for every operation from the rules
  \<open>nav_ok\<close>; frame lemmas at the granularity of a field, a storage node and an endpoint
  follow. The claims: C1 (only assertions panic), C2--C5 and C21 (storage-node fields,
  parse errors, role), C6--C8 (replication state), C9--C12 (proxy statistics), C23 and
  C24 (token map).
\<close>

abbreviation oset :: "string \<Rightarrow> string list \<Rightarrow> fval \<Rightarrow> registry \<Rightarrow> registry outcome" where
  "oset name lvs v reg \<equiv> gthen (gauge_set name lvs v reg) Ok"

definition doc_sections :: "gmap \<Rightarrow> (gmap \<times> gmap \<times> gval list) go" where
  "doc_sections result =
     gbind (as_obj (go_index result ''stats'')) (\<lambda>stats.
     gbind (as_obj (go_index stats ''group'')) (\<lambda>group.
     gbind (as_obj (go_index group ''stats'')) (\<lambda>serverStats.
     gbind (as_arr (go_index group ''models'')) (\<lambda>models.
     Inr (stats, serverStats, models)))))"

subsection \<open>Storage-node fields\<close>

definition redis_field :: "string \<Rightarrow> string \<Rightarrow> string \<times> gval \<Rightarrow> registry \<Rightarrow> registry outcome" where
  "redis_field addr key kv reg =
     (let k = fst kv; vTemp = fmt_s (snd kv) in
      obind
        (case map_of metric_map k of
           None \<Rightarrow> Ok reg
         | Some metricName \<Rightarrow>
             (case parse_float vTemp of
                None \<Rightarrow> Err (ParseFloatErr vTemp) reg
              | Some val \<Rightarrow> oset metricName [addr, key] val reg))
        (\<lambda>reg'. if k = ''role'' then oset ''redis_role'' [addr, key, vTemp] (Num 1) reg' else Ok reg'))"

definition redis_server :: "string \<Rightarrow> string \<times> gval \<Rightarrow> registry \<Rightarrow> registry outcome" where
  "redis_server addr kv reg =
     gthen (as_obj (snd kv)) (\<lambda>redisS.
     gthen (as_obj (go_index redisS ''stats'')) (\<lambda>redisStats.
     oeach (redis_field addr (fst kv)) redisStats reg))"

definition scrape_redis_stats :: "string \<Rightarrow> gmap \<Rightarrow> registry \<Rightarrow> registry outcome" where
  "scrape_redis_stats addr serverStats reg = oeach (redis_server addr) serverStats reg"

subsection \<open>Replication state\<close>

type_synonym repl_map = "(string, string) mapping"

definition repl_state_entry :: "string \<Rightarrow> string \<times> gval \<Rightarrow> repl_map \<Rightarrow> repl_map" where
  "repl_state_entry server kv rm =
     (if fst kv = ''state'' \<and> server \<noteq> [] then Mapping.update server (fmt_s (snd kv)) rm else rm)"

definition repl_dic_entry :: "string \<times> gval \<Rightarrow> string \<times> repl_map \<Rightarrow> (string \<times> repl_map) go" where
  "repl_dic_entry iv st =
     (let index = fst iv; value = snd iv;
          server = (if index = ''server'' then fmt_s value else fst st) in
      if index = ''action'' then
        gbind (as_obj value) (\<lambda>stateDict. Inr (server, fold (repl_state_entry server) stateDict (snd st)))
      else Inr (server, snd st))"

definition repl_server :: "gval \<Rightarrow> string \<times> repl_map \<Rightarrow> (string \<times> repl_map) go" where
  "repl_server arr st = gbind (as_obj arr) (\<lambda>dic. geach repl_dic_entry dic st)"

definition repl_model_entry :: "string \<times> gval \<Rightarrow> string \<times> repl_map \<Rightarrow> (string \<times> repl_map) go" where
  "repl_model_entry kv st =
     (if fst kv = ''servers'' then gbind (as_arr (snd kv)) (\<lambda>serverArray. geach repl_server serverArray st)
      else Inr st)"

definition repl_model :: "gval \<Rightarrow> repl_map \<Rightarrow> repl_map go" where
  "repl_model val rm =
     gbind (as_obj val) (\<lambda>valMap. gbind (geach repl_model_entry valMap ([], rm)) (\<lambda>st. Inr (snd st)))"

definition build_repl_map :: "gval list \<Rightarrow> repl_map go" where
  "build_repl_map models = geach repl_model models Mapping.empty"

definition repl_value :: "string \<Rightarrow> fval" where
  "repl_value state = (if state = ''synced'' then Num 1 else Num 0)"

definition emit_repl :: "string \<Rightarrow> repl_map \<Rightarrow> registry \<Rightarrow> registry outcome" where
  "emit_repl addr rm reg =
     oeach (\<lambda>server reg. oset ''redis_replication_state'' [addr, server]
                           (repl_value (the (Mapping.lookup rm server))) reg)
       (Mapping.ordered_keys rm) reg"

subsection \<open>Proxy topology\<close>

type_synonym token_map = "(string, string) mapping"

definition proxy_model_entry ::
  "gval \<Rightarrow> string \<times> string \<times> token_map \<Rightarrow> (string \<times> string \<times> token_map) go" where
  "proxy_model_entry arr st =
     gbind (as_obj arr) (\<lambda>arrDict.
       let proxyAddr = (if go_has arrDict ''proxy_addr'' then fmt_s (go_index arrDict ''proxy_addr'')
                        else fst (snd st));
           token = (if go_has arrDict ''token'' then fmt_s (go_index arrDict ''token'') else fst st)
       in Inr (token, proxyAddr, Mapping.update token proxyAddr (snd (snd st))))"

definition build_token_map :: "gmap \<Rightarrow> token_map go" where
  "build_token_map proxyDict =
     (if go_has proxyDict ''models'' then
        gbind (as_arr (go_index proxyDict ''models'')) (\<lambda>vArray.
        gbind (geach proxy_model_entry vArray ([], [], Mapping.empty)) (\<lambda>st. Inr (snd (snd st))))
      else Inr Mapping.empty)"

text \<open>
  \<open>token_entry\<close>: what one proxy model contributes to the token map when it carries
  both keys, \<^verbatim>\<open>token\<close> and \<^verbatim>\<open>proxy_addr\<close> (the reference the claims compare with).
\<close>

definition token_entry :: "gval \<Rightarrow> token_map \<Rightarrow> token_map" where
  "token_entry v tm = (case v of
     GObj d \<Rightarrow> Mapping.update (fmt_s (go_index d ''token'')) (fmt_s (go_index d ''proxy_addr'')) tm
   | _ \<Rightarrow> tm)"

subsection \<open>Proxy fields\<close>

text \<open>
  Two kinds of leaf read: \<open>set_asserted\<close> (\<^verbatim>\<open>x.(float64)\<close>, which panics on a
  non-number) and \<open>set_guarded\<close> (\<^verbatim>\<open>if _, ok := x.(float64); ok\<close>, 0 otherwise).
\<close>

definition set_asserted :: "string \<Rightarrow> string \<Rightarrow> gmap \<Rightarrow> string \<Rightarrow> string \<Rightarrow> registry \<Rightarrow> registry outcome" where
  "set_asserted addr proxyAddr m key name reg =
     (case map_of m key of
        None \<Rightarrow> Ok reg
      | Some x \<Rightarrow> gthen (as_float x) (\<lambda>r. oset name [addr, proxyAddr] (Num r) reg))"

definition guarded_float :: "gval \<Rightarrow> fval" where
  "guarded_float x = (case x of GNum m e \<Rightarrow> Num (dec_val m e) | _ \<Rightarrow> Num 0)"

definition set_guarded :: "string \<Rightarrow> string \<Rightarrow> gmap \<Rightarrow> string \<Rightarrow> string \<Rightarrow> registry \<Rightarrow> registry outcome" where
  "set_guarded addr proxyAddr m key name reg =
     (case map_of m key of
        None \<Rightarrow> Ok reg
      | Some x \<Rightarrow> oset name [addr, proxyAddr] (guarded_float x) reg)"

definition proxy_online :: "string \<Rightarrow> string \<Rightarrow> gmap \<Rightarrow> registry \<Rightarrow> registry outcome" where
  "proxy_online addr proxyAddr statsDict reg =
     (case map_of statsDict ''online'' of
        None \<Rightarrow> Ok reg
      | Some online \<Rightarrow>
          gthen (as_bool online) (\<lambda>b. oset ''proxy_online'' [addr, proxyAddr] (if b then Num 1 else Num 0) reg))"

definition proxy_ops :: "string \<Rightarrow> string \<Rightarrow> gmap \<Rightarrow> registry \<Rightarrow> registry outcome" where
  "proxy_ops addr proxyAddr statsDict reg =
     (case map_of statsDict ''ops'' of
        None \<Rightarrow> Ok reg
      | Some ops \<Rightarrow> gthen (as_obj ops) (\<lambda>opsDict.
          obind (set_asserted addr proxyAddr opsDict ''total'' ''proxy_ops_total'' reg) (\<lambda>r1.
          obind (set_asserted addr proxyAddr opsDict ''ops'' ''proxy_ops_fails'' r1) (\<lambda>r2.
          set_asserted addr proxyAddr opsDict ''qps'' ''proxy_ops_qps'' r2))))"

definition proxy_sessions :: "string \<Rightarrow> string \<Rightarrow> gmap \<Rightarrow> registry \<Rightarrow> registry outcome" where
  "proxy_sessions addr proxyAddr statsDict reg =
     (case map_of statsDict ''sessions'' of
        None \<Rightarrow> Ok reg
      | Some sessions \<Rightarrow> gthen (as_obj sessions) (\<lambda>sessionsDict.
          obind (set_asserted addr proxyAddr sessionsDict ''total'' ''proxy_sessions_total'' reg) (\<lambda>r1.
          set_guarded addr proxyAddr sessionsDict ''alive'' ''proxy_sessions_alive'' r1)))"

definition proxy_rusage_raw :: "string \<Rightarrow> string \<Rightarrow> gmap \<Rightarrow> registry \<Rightarrow> registry outcome" where
  "proxy_rusage_raw addr proxyAddr rusageMap reg =
     (case map_of rusageMap ''raw'' of
        None \<Rightarrow> Ok reg
      | Some raw \<Rightarrow> gthen (as_obj raw) (\<lambda>rawMap.
          obind (set_guarded addr proxyAddr rawMap ''num_threads'' ''proxy_rusage_raw_num_threads'' reg) (\<lambda>r1.
          obind (set_guarded addr proxyAddr rawMap ''vm_size'' ''proxy_rusage_raw_vm_size'' r1) (\<lambda>r2.
          set_guarded addr proxyAddr rawMap ''vm_rss'' ''proxy_rusage_raw_vm_rss'' r2))))"

definition proxy_rusage :: "string \<Rightarrow> string \<Rightarrow> gmap \<Rightarrow> registry \<Rightarrow> registry outcome" where
  "proxy_rusage addr proxyAddr statsDict reg =
     (case map_of statsDict ''rusage'' of
        None \<Rightarrow> Ok reg
      | Some rusageDict \<Rightarrow> gthen (as_obj rusageDict) (\<lambda>rusageMap.
          obind (set_guarded addr proxyAddr rusageMap ''cpu'' ''proxy_rusage_cpu'' reg) (\<lambda>r1.
          obind (set_guarded addr proxyAddr rusageMap ''mem'' ''proxy_rusage_mem'' r1) (\<lambda>r2.
          proxy_rusage_raw addr proxyAddr rusageMap r2))))"

definition proxy_stats :: "string \<Rightarrow> string \<Rightarrow> gmap \<Rightarrow> registry \<Rightarrow> registry outcome" where
  "proxy_stats addr proxyAddr statsDict reg =
     obind (proxy_online addr proxyAddr statsDict reg) (\<lambda>r1.
     obind (proxy_ops addr proxyAddr statsDict r1) (\<lambda>r2.
     obind (proxy_sessions addr proxyAddr statsDict r2) (\<lambda>r3.
     proxy_rusage addr proxyAddr statsDict r3)))"

definition proxy_stat_entry :: "string \<Rightarrow> token_map \<Rightarrow> string \<times> gval \<Rightarrow> registry \<Rightarrow> registry outcome" where
  "proxy_stat_entry addr tmap kv reg =
     (case Mapping.lookup tmap (fst kv) of
        None \<Rightarrow> Ok reg
      | Some proxyAddr \<Rightarrow>
          gthen (as_obj (snd kv)) (\<lambda>v1Dict.
            if go_has v1Dict ''stats'' then
              gthen (as_obj (go_index v1Dict ''stats'')) (\<lambda>statsDict. proxy_stats addr proxyAddr statsDict reg)
            else Ok reg))"

definition scrape_proxy_stats :: "string \<Rightarrow> token_map \<Rightarrow> gmap \<Rightarrow> registry \<Rightarrow> registry outcome" where
  "scrape_proxy_stats addr tmap proxyDict reg =
     (case map_of proxyDict ''stats'' of
        None \<Rightarrow> Ok reg
      | Some proxyStats \<Rightarrow> gthen (as_obj proxyStats) (\<lambda>vDict. oeach (proxy_stat_entry addr tmap) vDict reg))"

subsection \<open>The whole extraction\<close>

definition scrape_body :: "string \<Rightarrow> gmap \<Rightarrow> gmap \<Rightarrow> gval list \<Rightarrow> registry \<Rightarrow> registry outcome" where
  "scrape_body addr stats serverStats models reg =
     obind (scrape_redis_stats addr serverStats reg) (\<lambda>reg1.
     gthen (build_repl_map models) (\<lambda>rm.
     obind (emit_repl addr rm reg1) (\<lambda>reg2.
     gthen (as_obj (go_index stats ''proxy'')) (\<lambda>proxyDict.
     gthen (build_token_map proxyDict) (\<lambda>tmap.
     scrape_proxy_stats addr tmap proxyDict reg2)))))"

subsection \<open>What the extraction writes, and how it can fail\<close>

text \<open>
  The samples the navigator writes for endpoint \<open>addr\<close>: a storage-node, replication or
  proxy gauge with the two labels \<open>(addr, x)\<close>, or the role gauge with three labels
  \<open>(addr, x, r)\<close>. \<^verbatim>\<open>proxy_ops_redis_errors\<close> is declared by \<^verbatim>\<open>initGauges\<close> but never
  written.
\<close>

definition proxy_written :: "string list" where
  "proxy_written =
     [''proxy_online'', ''proxy_ops_total'', ''proxy_ops_fails'', ''proxy_ops_qps'',
      ''proxy_sessions_total'', ''proxy_sessions_alive'', ''proxy_rusage_cpu'', ''proxy_rusage_mem'',
      ''proxy_rusage_raw_num_threads'', ''proxy_rusage_raw_vm_size'', ''proxy_rusage_raw_vm_rss'']"

definition nav_write :: "string \<Rightarrow> string \<Rightarrow> string list \<Rightarrow> bool" where
  "nav_write addr n l \<longleftrightarrow> take 1 l = [addr] \<and>
     ((n \<in> set (map snd metric_map) \<or> n \<in> set proxy_written) \<and> length l = 2 \<or>
      n = ''redis_role'' \<and> length l = 3)"

definition assertion_panic :: "string \<Rightarrow> bool" where
  "assertion_panic p \<longleftrightarrow> take 22 p = ''interface conversion: ''"

definition go_safe :: "'a go \<Rightarrow> bool" where
  "go_safe m = (case m of Inl p \<Rightarrow> assertion_panic p | Inr a \<Rightarrow> True)"

text \<open>
  \<open>gs_closed W P\<close>: every sample write allowed by \<open>W\<close> keeps \<open>P\<close>.
  \<open>outcome_ok W P m\<close>: \<open>m\<close> stops in a state satisfying \<open>P\<close>, or panics in a
  type assertion or in a write allowed by \<open>W\<close> from a state satisfying \<open>P\<close>.
\<close>

definition gs_closed :: "(string \<Rightarrow> string list \<Rightarrow> bool) \<Rightarrow> (registry \<Rightarrow> bool) \<Rightarrow> bool" where
  "gs_closed W P \<longleftrightarrow> (\<forall>n l v r r'. W n l \<longrightarrow> P r \<longrightarrow> gauge_set n l v r = Inr r' \<longrightarrow> P r')"

definition outcome_ok :: "(string \<Rightarrow> string list \<Rightarrow> bool) \<Rightarrow> (registry \<Rightarrow> bool) \<Rightarrow> registry outcome \<Rightarrow> bool" where
  "outcome_ok W P m \<longleftrightarrow>
     (case m of
        Panic p \<Rightarrow> assertion_panic p \<or> (\<exists>n l v r. W n l \<and> P r \<and> gauge_set n l v r = Inl p)
      | Err e r \<Rightarrow> P r
      | Ok r \<Rightarrow> P r)"

definition field_fp :: "string \<Rightarrow> string \<Rightarrow> string \<Rightarrow> string \<Rightarrow> string list \<Rightarrow> bool" where
  "field_fp addr key k n l \<longleftrightarrow>
     map_of metric_map k = Some n \<and> l = [addr, key] \<or>
     k = ''role'' \<and> n = ''redis_role'' \<and> length l = 3 \<and> take 2 l = [addr, key]"

definition node_write :: "string \<Rightarrow> string \<Rightarrow> string \<Rightarrow> string list \<Rightarrow> bool" where
  "node_write addr key n l \<longleftrightarrow> take 2 l = [addr, key] \<and> nav_write addr n l"

definition has_vec :: "registry \<Rightarrow> string \<Rightarrow> nat \<Rightarrow> bool" where
  "has_vec reg n k \<longleftrightarrow> (case Mapping.lookup reg n of None \<Rightarrow> False | Some gv \<Rightarrow> length (gv_labels gv) = k)"

definition catalog_ok :: "registry \<Rightarrow> bool" where
  "catalog_ok reg \<longleftrightarrow>
     list_all (\<lambda>n. has_vec reg n 2) (map snd metric_map @ proxy_written) \<and> has_vec reg ''redis_role'' 3"

lemmas nav_defs = doc_sections_def scrape_body_def scrape_redis_stats_def redis_server_def redis_field_def
  build_repl_map_def repl_model_def repl_model_entry_def repl_server_def repl_dic_entry_def
  repl_state_entry_def emit_repl_def repl_value_def build_token_map_def proxy_model_entry_def
  scrape_proxy_stats_def proxy_stat_entry_def proxy_stats_def proxy_online_def proxy_ops_def
  proxy_sessions_def proxy_rusage_def proxy_rusage_raw_def set_asserted_def set_guarded_def
  guarded_float_def go_index_def go_has_def

named_theorems nav_ok "rules that build outcome_ok for the extraction"

lemma assertion_panic_conv [simp]: "assertion_panic (conv_panic v w)"
  by (simp add: assertion_panic_def conv_panic_def)

lemma go_safe_as_obj [nav_ok]: "go_safe (as_obj v)"
  by (cases v) (simp_all add: go_safe_def)

lemma go_safe_as_arr [nav_ok]: "go_safe (as_arr v)"
  by (cases v) (simp_all add: go_safe_def)

lemma go_safe_as_float [nav_ok]: "go_safe (as_float v)"
  by (cases v) (simp_all add: go_safe_def)

lemma go_safe_as_bool [nav_ok]: "go_safe (as_bool v)"
  by (cases v) (simp_all add: go_safe_def)

lemma go_safe_gbind [nav_ok]: "go_safe m \<Longrightarrow> (\<And>a. m = Inr a \<Longrightarrow> go_safe (f a)) \<Longrightarrow> go_safe (gbind m f)"
  by (cases m) (auto simp: go_safe_def)

lemma go_safe_Inr [nav_ok]: "go_safe (Inr a)"
  by (simp add: go_safe_def)

lemma go_safe_if [nav_ok]: "(b \<Longrightarrow> go_safe x) \<Longrightarrow> (\<not> b \<Longrightarrow> go_safe y) \<Longrightarrow> go_safe (if b then x else y)"
  by simp

lemma go_safe_geach [nav_ok]: "(\<And>x s. x \<in> set xs \<Longrightarrow> go_safe (f x s)) \<Longrightarrow> go_safe (geach f xs s)"
proof (induction xs arbitrary: s)
  case Nil
  then show ?case by (simp add: go_safe_def)
next
  case (Cons x xs)
  have "go_safe (f x s)" using Cons.prems by simp
  moreover have "go_safe (geach f xs s')" for s'
    using Cons.prems by (intro Cons.IH) simp
  ultimately show ?case by (simp add: go_safe_gbind)
qed

lemma outcome_ok_Ok [nav_ok]: "P r \<Longrightarrow> outcome_ok W P (Ok r)"
  and outcome_ok_Err [nav_ok]: "P r \<Longrightarrow> outcome_ok W P (Err e r)"
  by (simp_all add: outcome_ok_def)

lemma outcome_ok_obind [nav_ok]:
  "outcome_ok W P m \<Longrightarrow> (\<And>r. P r \<Longrightarrow> outcome_ok W P (f r)) \<Longrightarrow> outcome_ok W P (obind m f)"
  by (cases m) (auto simp: outcome_ok_def)

lemma outcome_ok_gthen [nav_ok]:
  "go_safe m \<Longrightarrow> (\<And>a. m = Inr a \<Longrightarrow> outcome_ok W P (f a)) \<Longrightarrow> outcome_ok W P (gthen m f)"
  by (cases m) (auto simp: outcome_ok_def go_safe_def)

lemma outcome_ok_oset [nav_ok]:
  assumes w: "W n l" and c: "gs_closed W P" and p: "P r"
  shows "outcome_ok W P (oset n l v r)"
proof (cases "gauge_set n l v r")
  case (Inl q)
  with w p have "\<exists>n' l' v' r'. W n' l' \<and> P r' \<and> gauge_set n' l' v' r' = Inl q" by blast
  with Inl show ?thesis by (simp add: outcome_ok_def)
next
  case (Inr r')
  with w c p have "P r'" unfolding gs_closed_def by blast
  with Inr show ?thesis by (simp add: outcome_ok_def)
qed

lemma outcome_ok_oeach [nav_ok]:
  "(\<And>x r. x \<in> set xs \<Longrightarrow> P r \<Longrightarrow> outcome_ok W P (f x r)) \<Longrightarrow> P r \<Longrightarrow> outcome_ok W P (oeach f xs r)"
proof (induction xs arbitrary: r)
  case Nil
  then show ?case by (simp add: outcome_ok_def)
next
  case (Cons x xs)
  have "outcome_ok W P (f x r)" using Cons.prems by simp
  moreover have "outcome_ok W P (oeach f xs r')" if "P r'" for r'
    using Cons.prems(1) that by (intro Cons.IH) simp_all
  ultimately show ?case by (simp add: outcome_ok_obind)
qed

lemma outcome_ok_if [nav_ok]:
  "(b \<Longrightarrow> outcome_ok W P x) \<Longrightarrow> (\<not> b \<Longrightarrow> outcome_ok W P y) \<Longrightarrow> outcome_ok W P (if b then x else y)"
  by simp

lemma outcome_ok_option [nav_ok]:
  "(opt = None \<Longrightarrow> outcome_ok W P x) \<Longrightarrow> (\<And>a. opt = Some a \<Longrightarrow> outcome_ok W P (y a)) \<Longrightarrow>
     outcome_ok W P (case opt of None \<Rightarrow> x | Some a \<Rightarrow> y a)"
  by (cases opt) auto

subsection \<open>Every operation of the extraction\<close>

lemma metric_map_name: "map_of metric_map k = Some n \<Longrightarrow> n \<in> set (map snd metric_map)"
  by (force dest: map_of_SomeD)

lemma outcome_ok_mono:
  "outcome_ok W P m \<Longrightarrow> (\<And>n l. W n l \<Longrightarrow> W' n l) \<Longrightarrow> outcome_ok W' P m"
  by (cases m) (auto simp: outcome_ok_def)

lemma gs_closed_anti:
  "gs_closed W' P \<Longrightarrow> (\<And>n l. W n l \<Longrightarrow> W' n l) \<Longrightarrow> gs_closed W P"
  unfolding gs_closed_def by blast

lemma outcome_ok_ostate: "outcome_ok W P m \<Longrightarrow> ostate m = Some r \<Longrightarrow> P r"
  by (cases m) (auto simp: outcome_ok_def)

lemma gs_closed_sample: "\<not> W n l \<Longrightarrow> gs_closed W (\<lambda>r. sample_of r n l = c)"
  unfolding gs_closed_def by (auto simp: sample_of_gauge_set)

lemma take_one_of_two: "take 2 l = [a, b] \<Longrightarrow> take 1 l = [a]"
  by (metis One_nat_def min.absorb1 one_le_numeral take_take take_Suc_Cons take0)

lemma field_fp_node_write: "field_fp addr key k n l \<Longrightarrow> node_write addr key n l"
  unfolding field_fp_def node_write_def nav_write_def
  by (auto dest: metric_map_name take_one_of_two)

lemma redis_field_ok:
  "gs_closed (field_fp addr key (fst kv)) P \<Longrightarrow> P reg \<Longrightarrow>
     outcome_ok (field_fp addr key (fst kv)) P (redis_field addr key kv reg)"
  unfolding redis_field_def Let_def
  by (intro nav_ok) (simp_all add: field_fp_def)

lemma redis_server_ok:
  assumes c: "gs_closed (node_write addr (fst kv)) P" and p: "P reg"
  shows "outcome_ok (node_write addr (fst kv)) P (redis_server addr kv reg)"
proof -
  have cf: "gs_closed (field_fp addr (fst kv) k) P" for k
    using c by (rule gs_closed_anti) (rule field_fp_node_write)
  have field: "outcome_ok (node_write addr (fst kv)) P (redis_field addr (fst kv) x r)" if "P r" for x r
    using redis_field_ok [OF cf that] by (rule outcome_ok_mono) (rule field_fp_node_write)
  show ?thesis unfolding redis_server_def using p by (intro nav_ok field)
qed

lemma scrape_redis_stats_ok:
  assumes c: "gs_closed (nav_write addr) P" and p: "P reg"
  shows "outcome_ok (nav_write addr) P (scrape_redis_stats addr ss reg)"
proof -
  have node: "outcome_ok (nav_write addr) P (redis_server addr x r)" if "P r" for x r
  proof -
    have "gs_closed (node_write addr (fst x)) P"
      using c by (rule gs_closed_anti) (simp add: node_write_def)
    from redis_server_ok [OF this that] show ?thesis
      by (rule outcome_ok_mono) (simp add: node_write_def)
  qed
  show ?thesis unfolding scrape_redis_stats_def using p by (intro nav_ok node)
qed

lemma emit_repl_ok:
  "gs_closed (nav_write addr) P \<Longrightarrow> P reg \<Longrightarrow> outcome_ok (nav_write addr) P (emit_repl addr rm reg)"
  unfolding emit_repl_def
  by (intro nav_ok) (simp_all add: nav_write_def metric_map_def)

lemma repl_dic_entry_safe: "go_safe (repl_dic_entry iv st)"
  unfolding repl_dic_entry_def Let_def by (intro nav_ok)

lemma repl_model_safe: "go_safe (repl_model v rm)"
  unfolding repl_model_def repl_model_entry_def repl_server_def
  by (intro nav_ok repl_dic_entry_safe)

lemma build_repl_map_safe: "go_safe (build_repl_map models)"
  unfolding build_repl_map_def by (intro nav_ok repl_model_safe)

lemma proxy_model_entry_safe: "go_safe (proxy_model_entry arr st)"
  unfolding proxy_model_entry_def Let_def by (intro nav_ok)

lemma build_token_map_safe: "go_safe (build_token_map pd)"
  unfolding build_token_map_def by (intro nav_ok proxy_model_entry_safe)

lemma set_asserted_ok:
  "name \<in> set proxy_written \<Longrightarrow> gs_closed (nav_write addr) P \<Longrightarrow> P reg \<Longrightarrow>
     outcome_ok (nav_write addr) P (set_asserted addr pa m key name reg)"
  unfolding set_asserted_def
  by (intro nav_ok) (simp_all add: nav_write_def)

lemma set_guarded_ok:
  "name \<in> set proxy_written \<Longrightarrow> gs_closed (nav_write addr) P \<Longrightarrow> P reg \<Longrightarrow>
     outcome_ok (nav_write addr) P (set_guarded addr pa m key name reg)"
  unfolding set_guarded_def
  by (intro nav_ok) (simp_all add: nav_write_def)

lemma proxy_stats_ok:
  "gs_closed (nav_write addr) P \<Longrightarrow> P reg \<Longrightarrow> outcome_ok (nav_write addr) P (proxy_stats addr pa sd reg)"
  unfolding proxy_stats_def proxy_online_def proxy_ops_def proxy_sessions_def proxy_rusage_def proxy_rusage_raw_def
  by (intro nav_ok set_asserted_ok set_guarded_ok; simp add: nav_write_def proxy_written_def)

lemma scrape_proxy_stats_ok:
  "gs_closed (nav_write addr) P \<Longrightarrow> P reg \<Longrightarrow> outcome_ok (nav_write addr) P (scrape_proxy_stats addr tm pd reg)"
  unfolding scrape_proxy_stats_def proxy_stat_entry_def
  by (intro nav_ok proxy_stats_ok)

lemma scrape_body_ok:
  "gs_closed (nav_write addr) P \<Longrightarrow> P reg \<Longrightarrow> outcome_ok (nav_write addr) P (scrape_body addr st ss models reg)"
  unfolding scrape_body_def
  by (intro nav_ok scrape_redis_stats_ok emit_repl_ok scrape_proxy_stats_ok build_repl_map_safe build_token_map_safe)

subsection \<open>The catalog the extraction writes into\<close>

lemma catalog_ok_init_gauges: "catalog_ok init_gauges"
  by (simp add: catalog_ok_def has_vec_def lookup_init_gauges metric_map_def proxy_metric_map_def
      proxy_written_def new_gauge_vec_def redis_labels_def proxy_labels_def role_labels_def)

lemma has_vec_gauge_set: "gauge_set n l v r = Inr r' \<Longrightarrow> has_vec r' m k = has_vec r m k"
  using gauge_set_labels [of n l v r r' m]
  by (auto simp: has_vec_def split: option.splits)

lemma gs_closed_catalog_ok: "gs_closed W catalog_ok"
  by (simp add: gs_closed_def catalog_ok_def has_vec_gauge_set)

lemma catalog_write_total:
  assumes "catalog_ok r" and "nav_write addr n l"
  shows "\<exists>r'. gauge_set n l v r = Inr r'"
proof -
  from assms obtain k where "has_vec r n k" and "length l = k"
    by (auto simp: catalog_ok_def nav_write_def list_all_iff)
  then show ?thesis by (auto simp: has_vec_def gauge_set_def split: option.splits)
qed

lemma scrape_body_frame:
  assumes "ostate (scrape_body addr st ss ms reg) = Some reg'" and "\<not> nav_write addr n l"
  shows "sample_of reg' n l = sample_of reg n l"
proof -
  have "gs_closed (nav_write addr) (\<lambda>r. sample_of r n l = sample_of reg n l)"
    using assms(2) by (rule gs_closed_sample)
  from outcome_ok_ostate [OF scrape_body_ok [OF this] assms(1)] show ?thesis by simp
qed

lemma scrape_body_catalog_ok:
  "catalog_ok reg \<Longrightarrow> ostate (scrape_body addr st ss ms reg) = Some reg' \<Longrightarrow> catalog_ok reg'"
  by (rule outcome_ok_ostate [OF scrape_body_ok [OF gs_closed_catalog_ok]])

text \<open>
  C1. With a registry that holds the catalog (as \<^verbatim>\<open>initGauges\<close> builds it), the
  extraction of one endpoint can panic only in a type assertion on the decoded document:
  every \<^verbatim>\<open>WithLabelValues(...).Set\<close> it performs names an existing vector with the
  right number of labels.
\<close>

theorem scrape_body_panics_only_in_assertions:
  assumes "catalog_ok reg" and "scrape_body addr st ss ms reg = Panic p"
  shows "assertion_panic p"
proof -
  have "outcome_ok (nav_write addr) catalog_ok (scrape_body addr st ss ms reg)"
    using scrape_body_ok [OF gs_closed_catalog_ok assms(1)] .
  with assms(2) have "assertion_panic p \<or>
      (\<exists>n l v r. nav_write addr n l \<and> catalog_ok r \<and> gauge_set n l v r = Inl p)"
    by (simp add: outcome_ok_def)
  then show ?thesis
  proof
    assume "\<exists>n l v r. nav_write addr n l \<and> catalog_ok r \<and> gauge_set n l v r = Inl p"
    then obtain n l v r where "nav_write addr n l" "catalog_ok r" "gauge_set n l v r = Inl p" by blast
    with catalog_write_total [of r addr n l v] show ?thesis by auto
  qed
qed

subsection \<open>Storage-node fields\<close>

lemma oeach_frame:
  assumes step: "\<And>x r r'. x \<in> set xs \<Longrightarrow> ostate (f x r) = Some r' \<Longrightarrow> sample_of r' n l = sample_of r n l"
    and res: "ostate (oeach f xs r) = Some r'"
  shows "sample_of r' n l = sample_of r n l"
proof (rule oeach_invariant [where P = "\<lambda>t. sample_of t n l = sample_of r n l", OF _ refl res])
  fix x s t
  assume "x \<in> set xs" "sample_of s n l = sample_of r n l" "ostate (f x s) = Some t"
  then show "sample_of t n l = sample_of r n l" using step by metis
qed

lemma redis_field_frame:
  assumes "ostate (redis_field addr key kv r) = Some r'" and "\<not> field_fp addr key (fst kv) n l"
  shows "sample_of r' n l = sample_of r n l"
proof -
  have "gs_closed (field_fp addr key (fst kv)) (\<lambda>t. sample_of t n l = sample_of r n l)"
    using assms(2) by (rule gs_closed_sample)
  from outcome_ok_ostate [OF redis_field_ok [OF this] assms(1)] show ?thesis by simp
qed

lemma redis_server_frame:
  assumes "ostate (redis_server addr kv r) = Some r'" and "\<not> node_write addr (fst kv) n l"
  shows "sample_of r' n l = sample_of r n l"
proof -
  have "gs_closed (node_write addr (fst kv)) (\<lambda>t. sample_of t n l = sample_of r n l)"
    using assms(2) by (rule gs_closed_sample)
  from outcome_ok_ostate [OF redis_server_ok [OF this] assms(1)] show ?thesis by simp
qed

lemma redis_fields_frame:
  assumes "ostate (oeach (redis_field addr key) xs r) = Some r'"
    and "\<forall>y \<in> set xs. \<not> field_fp addr key (fst y) n l"
  shows "sample_of r' n l = sample_of r n l"
proof (rule oeach_frame [OF _ assms(1)])
  fix y s t
  assume "y \<in> set xs" "ostate (redis_field addr key y s) = Some t"
  with assms(2) show "sample_of t n l = sample_of s n l" by (blast intro: redis_field_frame)
qed

lemma redis_servers_frame:
  assumes "ostate (oeach (redis_server addr) xs r) = Some r'"
    and "key \<notin> set (map fst xs)" and "take 2 l = [addr, key]"
  shows "sample_of r' n l = sample_of r n l"
proof (rule oeach_frame [OF _ assms(1)])
  fix y s t
  assume "y \<in> set xs" "ostate (redis_server addr y s) = Some t"
  moreover from \<open>y \<in> set xs\<close> assms(2,3) have "\<not> node_write addr (fst y) n l"
    by (auto simp: node_write_def)
  ultimately show "sample_of t n l = sample_of s n l" by (blast intro: redis_server_frame)
qed

lemma metric_map_role [simp]: "map_of metric_map ''role'' = None"
  by (simp add: metric_map_def)

lemma metric_map_inj: "map_of metric_map k = Some n \<Longrightarrow> map_of metric_map k' = Some n \<Longrightarrow> k = k'"
proof -
  assume a: "map_of metric_map k = Some n" "map_of metric_map k' = Some n"
  have "distinct (map snd metric_map)" by (simp add: metric_map_def)
  then have "inj_on snd (set metric_map)" by (simp add: distinct_map)
  with a show "k = k'" by (metis inj_onD map_of_SomeD prod.inject snd_conv)
qed

lemma redis_field_catalog:
  assumes "map_of metric_map k = Some name" and "parse_float (fmt_s v) = Some x"
    and "redis_field addr key (k, v) r = Ok r'"
  shows "sample_of r' name [addr, key] = Some x"
proof -
  from assms(1) have "k \<noteq> ''role''" by auto
  with assms have "gauge_set name [addr, key] x r = Inr r'"
    by (auto simp: redis_field_def gthen_Ok_iff)
  then show ?thesis by (simp add: sample_of_gauge_set)
qed

lemma redis_server_fields:
  "go_index redisS ''stats'' = GObj redisStats \<Longrightarrow>
     redis_server addr (key, GObj redisS) r = oeach (redis_field addr key) redisStats r"
  by (simp add: redis_server_def)

theorem scrape_body_panics_only_in_assertions_witness:
  "catalog_ok init_gauges \<and>
   scrape_body ''a'' [] [(''n'', GStr ''x'')] [] init_gauges =
     Panic (conv_panic (GStr ''x'') ''map[string]interface {}'') \<and>
   assertion_panic (conv_panic (GStr ''x'') ''map[string]interface {}'')"
proof -
  have h1: "catalog_ok init_gauges" by (rule catalog_ok_init_gauges)
  have h2: "scrape_body ''a'' [] [(''n'', GStr ''x'')] [] init_gauges =
      Panic (conv_panic (GStr ''x'') ''map[string]interface {}'')"
    by (simp add: scrape_body_def scrape_redis_stats_def redis_server_def)
  show ?thesis using h1 h2 scrape_body_panics_only_in_assertions [OF h1 h2] by simp
qed

text \<open>
  C2. Storage-node fields: when the extraction of the storage nodes ends normally, every
  catalog field \<open>k\<close> of node \<open>key\<close> whose text parses as the float \<open>x\<close> has left the
  sample \<open>x\<close> under the catalog name of \<open>k\<close> and the labels (endpoint, node), whatever
  the order in which Go visited the maps.
\<close>

theorem scrape_redis_stats_field:
  assumes ok: "scrape_redis_stats addr ss reg = Ok reg'"
    and dss: "distinct (map fst ss)" and node: "map_of ss key = Some (GObj redisS)"
    and st: "go_index redisS ''stats'' = GObj redisStats" and dst: "distinct (map fst redisStats)"
    and fld: "map_of redisStats k = Some v" and cat: "map_of metric_map k = Some name"
    and val: "parse_float (fmt_s v) = Some x"
  shows "sample_of reg' name [addr, key] = Some x"
proof -
  obtain pre post where ss: "ss = pre @ (key, GObj redisS) # post" and kpost: "key \<notin> set (map fst post)"
    using map_of_split_distinct [OF node dss] by blast
  from ok ss obtain r1 r2 where n: "redis_server addr (key, GObj redisS) r1 = Ok r2"
      and p: "oeach (redis_server addr) post r2 = Ok reg'"
    unfolding scrape_redis_stats_def by (blast dest: oeach_split_Ok)
  obtain fpre fpost where fs: "redisStats = fpre @ (k, v) # fpost" and kf: "k \<notin> set (map fst fpost)"
    using map_of_split_distinct [OF fld dst] by blast
  from n st fs obtain q1 q2 where f: "redis_field addr key (k, v) q1 = Ok q2"
      and fp: "oeach (redis_field addr key) fpost q2 = Ok r2"
    by (auto simp: redis_server_fields dest!: oeach_split_Ok)
  have "sample_of q2 name [addr, key] = Some x" using redis_field_catalog [OF cat val f] .
  moreover have "\<forall>y \<in> set fpost. \<not> field_fp addr key (fst y) name [addr, key]"
    using kf cat by (auto simp: field_fp_def dest: metric_map_inj)
  with fp have "sample_of r2 name [addr, key] = sample_of q2 name [addr, key]"
    by (intro redis_fields_frame [of addr key fpost q2 r2]) simp_all
  moreover have "sample_of reg' name [addr, key] = sample_of r2 name [addr, key]"
    using p kpost by (intro redis_servers_frame [of addr post r2 reg' key]) simp_all
  ultimately show ?thesis by simp
qed

theorem scrape_redis_stats_field_witness:
  "\<exists>r. scrape_redis_stats ''a'' [(''n'', GObj [(''stats'', GObj [(''used_memory'', GStr ''100'')])])]
         init_gauges = Ok r \<and>
       sample_of r ''redis_used_memory'' [''a'', ''n''] = Some (Num 100)"
proof -
  have "\<exists>r. scrape_redis_stats ''a'' [(''n'', GObj [(''stats'', GObj [(''used_memory'', GStr ''100'')])])]
         init_gauges = Ok r"
    by (simp add: nav_defs reg_eval parse_eval)
  then obtain r where ev: "scrape_redis_stats ''a''
      [(''n'', GObj [(''stats'', GObj [(''used_memory'', GStr ''100'')])])] init_gauges = Ok r" ..
  have "sample_of r ''redis_used_memory'' [''a'', ''n''] = Some (Num 100)"
    by (rule scrape_redis_stats_field [OF ev, where redisS = "[(''stats'', GObj [(''used_memory'', GStr ''100'')])]"
          and redisStats = "[(''used_memory'', GStr ''100'')]" and k = "''used_memory''" and v = "GStr ''100''"])
       (simp_all add: go_index_def metric_map_def parse_eval)
  with ev show ?thesis by blast
qed


lemma oeach_Ok_each:
  "oeach f xs s = Ok t \<Longrightarrow> x \<in> set xs \<Longrightarrow> \<exists>s1 s2. f x s1 = Ok s2"
  by (metis oeach_split_Ok split_list)

lemma redis_field_parse_err:
  "map_of metric_map k = Some n \<Longrightarrow> parse_float (fmt_s v) = None \<Longrightarrow>
     redis_field addr key (k, v) r = Err (ParseFloatErr (fmt_s v)) r"
  by (simp add: redis_field_def)

lemma redis_field_role:
  "redis_field addr key (''role'', v) r = oset ''redis_role'' [addr, key, fmt_s v] (Num 1) r"
  by (simp add: redis_field_def)

lemma redis_role_not_metric: "map_of metric_map k \<noteq> Some ''redis_role''"
proof
  assume "map_of metric_map k = Some ''redis_role''"
  then have "''redis_role'' \<in> set (map snd metric_map)" by (rule metric_map_name)
  then show False by (simp add: metric_map_def)
qed

lemma oset_sample:
  "ostate (oset n l v r) = Some r' \<Longrightarrow>
     sample_of r' n' l' = (if n' = n \<and> l' = l then Some v else sample_of r n' l')"
  by (cases "gauge_set n l v r") (simp_all add: sample_of_gauge_set)

lemma redis_parse_error_not_Ok:
  assumes node: "(key, GObj redisS) \<in> set ss" and st: "go_index redisS ''stats'' = GObj redisStats"
    and fld: "(k, v) \<in> set redisStats" and cat: "map_of metric_map k = Some name"
    and bad: "parse_float (fmt_s v) = None"
  shows "scrape_redis_stats addr ss reg \<noteq> Ok r"
proof
  assume "scrape_redis_stats addr ss reg = Ok r"
  with node obtain s1 s2 where "redis_server addr (key, GObj redisS) s1 = Ok s2"
    unfolding scrape_redis_stats_def by (blast dest: oeach_Ok_each)
  with st have "oeach (redis_field addr key) redisStats s1 = Ok s2" by (simp add: redis_server_fields)
  with fld obtain q1 q2 where "redis_field addr key (k, v) q1 = Ok q2" by (blast dest: oeach_Ok_each)
  with cat bad show False by (simp add: redis_field_parse_err)
qed

text \<open>
  C3. A parse failure aborts the endpoint: if some catalog field of some storage node
  does not parse as a float, the storage-node loop never ends normally (it returns the
  \<^verbatim>\<open>ParseFloat\<close> error, or an earlier panic).
\<close>

theorem scrape_redis_stats_parse_error:
  assumes node: "map_of ss key = Some (GObj redisS)" and st: "go_index redisS ''stats'' = GObj redisStats"
    and fld: "map_of redisStats k = Some v" and cat: "map_of metric_map k = Some name"
    and bad: "parse_float (fmt_s v) = None"
  shows "\<forall>r. scrape_redis_stats addr ss reg \<noteq> Ok r"
  using redis_parse_error_not_Ok [OF map_of_SomeD [OF node] st map_of_SomeD [OF fld] cat bad] by blast

theorem scrape_redis_stats_parse_error_witness:
  "scrape_redis_stats ''a'' [(''n'', GObj [(''stats'', GObj [(''maxmemory'', GStr ''12MB'')])])] init_gauges =
     Err (ParseFloatErr ''12MB'') init_gauges \<and>
   (\<forall>r. scrape_redis_stats ''a'' [(''n'', GObj [(''stats'', GObj [(''maxmemory'', GStr ''12MB'')])])]
          init_gauges \<noteq> Ok r)"
proof -
  have "\<forall>r. scrape_redis_stats ''a'' [(''n'', GObj [(''stats'', GObj [(''maxmemory'', GStr ''12MB'')])])]
          init_gauges \<noteq> Ok r"
    by (rule scrape_redis_stats_parse_error [where key = "''n''"
          and redisS = "[(''stats'', GObj [(''maxmemory'', GStr ''12MB'')])]"
          and redisStats = "[(''maxmemory'', GStr ''12MB'')]" and k = "''maxmemory''" and v = "GStr ''12MB''"
          and name = "''redis_maxmemory''"])
       (simp_all add: go_index_def metric_map_def parse_eval)
  moreover have "scrape_redis_stats ''a'' [(''n'', GObj [(''stats'', GObj [(''maxmemory'', GStr ''12MB'')])])]
      init_gauges = Err (ParseFloatErr ''12MB'') init_gauges"
    by (simp add: nav_defs metric_map_def parse_eval)
  ultimately show ?thesis by blast
qed

text \<open>
  C4. \<^verbatim>\<open>fmt.Sprintf("%s", v)\<close> turns any JSON value that is not a string into a text
  that \<^verbatim>\<open>ParseFloat\<close> rejects (for a number, \<^verbatim>\<open>%!s(float64=100)\<close>), so a catalog
  field sent as a JSON number, boolean, null, array or object aborts the endpoint with a
  parse error instead of being coerced.
\<close>

theorem redis_field_non_string:
  assumes "map_of metric_map k = Some name" and "\<forall>s. v \<noteq> GStr s"
  shows "redis_field addr key (k, v) reg = Err (ParseFloatErr (fmt_s v)) reg"
  using assms by (simp add: redis_field_parse_err parse_float_fmt_non_string)

theorem redis_field_non_string_witness:
  "map_of metric_map ''used_memory'' = Some ''redis_used_memory'' \<and> (\<forall>s. GNum 100 0 \<noteq> GStr s) \<and>
   redis_field ''a'' ''n'' (''used_memory'', GNum 100 0) init_gauges =
     Err (ParseFloatErr ''%!s(float64=100)'') init_gauges"
proof -
  have h1: "map_of metric_map ''used_memory'' = Some ''redis_used_memory''" by (simp add: metric_map_def)
  have h2: "\<forall>s. GNum 100 0 \<noteq> GStr s" by simp
  have "fmt_s (GNum 100 0) = ''%!s(float64=100)''" by (simp add: fmt_eval)
  with redis_field_non_string [OF h1 h2, of "''a''" "''n''" init_gauges] h1 h2 show ?thesis by simp
qed

text \<open>
  C5. The role series: when the storage-node loop ends normally from a registry with no
  role sample for node \<open>key\<close> of this endpoint, and the node reports \<^verbatim>\<open>role\<close>, the
  role gauge holds 1 for exactly the reported role text and nothing for any other role
  of that node.
\<close>

theorem scrape_redis_stats_role:
  assumes ok: "scrape_redis_stats addr ss reg = Ok reg'"
    and dss: "distinct (map fst ss)" and node: "map_of ss key = Some (GObj redisS)"
    and st: "go_index redisS ''stats'' = GObj redisStats" and dst: "distinct (map fst redisStats)"
    and role: "map_of redisStats ''role'' = Some rv"
    and fresh: "\<forall>r. sample_of reg ''redis_role'' [addr, key, r] = None"
  shows "sample_of reg' ''redis_role'' [addr, key, r] = (if r = fmt_s rv then Some (Num 1) else None)"
proof -
  let ?l = "[addr, key, r]"
  obtain pre post where ss: "ss = pre @ (key, GObj redisS) # post"
      and kpre: "key \<notin> set (map fst pre)" and kpost: "key \<notin> set (map fst post)"
    using map_of_split_distinct [OF node dss] by blast
  from ok ss obtain r1 r2 where pr: "oeach (redis_server addr) pre reg = Ok r1"
      and n: "redis_server addr (key, GObj redisS) r1 = Ok r2"
      and p: "oeach (redis_server addr) post r2 = Ok reg'"
    unfolding scrape_redis_stats_def by (blast dest: oeach_split_Ok)
  have not_role: "\<forall>y \<in> set xs. \<not> field_fp addr key (fst y) ''redis_role'' ?l"
    if "''role'' \<notin> set (map fst xs)" for xs
    using that redis_role_not_metric by (auto simp: field_fp_def) (metis fst_conv image_eqI)
  obtain fpre fpost where fs: "redisStats = fpre @ (''role'', rv) # fpost"
      and kfpre: "''role'' \<notin> set (map fst fpre)" and kfpost: "''role'' \<notin> set (map fst fpost)"
    using map_of_split_distinct [OF role dst] by blast
  from n st fs obtain q1 q2 where fpr: "oeach (redis_field addr key) fpre r1 = Ok q1"
      and f: "redis_field addr key (''role'', rv) q1 = Ok q2"
      and fp: "oeach (redis_field addr key) fpost q2 = Ok r2"
    by (auto simp: redis_server_fields dest!: oeach_split_Ok)
  have "sample_of r1 ''redis_role'' ?l = sample_of reg ''redis_role'' ?l"
    using pr kpre by (intro redis_servers_frame [of addr pre reg r1 key]) simp_all
  moreover have "sample_of q1 ''redis_role'' ?l = sample_of r1 ''redis_role'' ?l"
    using fpr not_role [OF kfpre] by (intro redis_fields_frame [of addr key fpre r1 q1]) simp_all
  moreover have "sample_of q2 ''redis_role'' ?l =
      (if r = fmt_s rv then Some (Num 1) else sample_of q1 ''redis_role'' ?l)"
    using oset_sample [of "''redis_role''" "[addr, key, fmt_s rv]" "Num 1" q1 q2] f
    by (simp add: redis_field_role)
  moreover have "sample_of r2 ''redis_role'' ?l = sample_of q2 ''redis_role'' ?l"
    using fp not_role [OF kfpost] by (intro redis_fields_frame [of addr key fpost q2 r2]) simp_all
  moreover have "sample_of reg' ''redis_role'' ?l = sample_of r2 ''redis_role'' ?l"
    using p kpost by (intro redis_servers_frame [of addr post r2 reg' key]) simp_all
  moreover have "sample_of reg ''redis_role'' ?l = None" using fresh by simp
  ultimately show ?thesis by simp
qed

theorem scrape_redis_stats_role_witness:
  "\<exists>r. scrape_redis_stats ''a'' [(''n'', GObj [(''stats'', GObj [(''role'', GStr ''master'')])])]
         init_gauges = Ok r \<and>
       sample_of r ''redis_role'' [''a'', ''n'', ''master''] = Some (Num 1) \<and>
       sample_of r ''redis_role'' [''a'', ''n'', ''slave''] = None"
proof -
  have "\<exists>r. scrape_redis_stats ''a'' [(''n'', GObj [(''stats'', GObj [(''role'', GStr ''master'')])])]
         init_gauges = Ok r"
    by (simp add: nav_defs reg_eval Let_def)
  then obtain r where ev: "scrape_redis_stats ''a''
      [(''n'', GObj [(''stats'', GObj [(''role'', GStr ''master'')])])] init_gauges = Ok r" ..
  have "sample_of r ''redis_role'' [''a'', ''n'', rl] =
      (if rl = fmt_s (GStr ''master'') then Some (Num 1) else None)" for rl
    by (rule scrape_redis_stats_role [OF ev, where redisS = "[(''stats'', GObj [(''role'', GStr ''master'')])]"
          and redisStats = "[(''role'', GStr ''master'')]"])
       (simp_all add: go_index_def)
  with ev show ?thesis by (auto simp: fmt_s_GStr)
qed


text \<open>
  C21. A catalog field sent as the decimal text of a natural number of at most
  \<open>2\<^sup>5\<^sup>3\<close> (as Redis \<^verbatim>\<open>INFO\<close> counters are) sets its gauge to exactly that
  number. Up to \<open>2\<^sup>5\<^sup>3\<close> every integer is a binary64 value, so the exact decimal value
  the model keeps is the float64 \<^verbatim>\<open>ParseFloat\<close> returns; beyond it Go rounds.
\<close>

theorem redis_field_decimal:
  assumes "map_of metric_map k = Some name" and "n \<le> 2 ^ 53"
  shows "redis_field addr key (k, GStr (nat_digits n)) reg = oset name [addr, key] (Num (of_nat n)) reg"
proof -
  have "k \<noteq> ''role''" using assms(1) by auto
  moreover have "n < 2 ^ 1000"
    using assms(2) power_strict_increasing [of 53 1000 "2::nat"] by simp
  ultimately show ?thesis using assms(1)
    by (auto simp: redis_field_def nat_digits_not_overflow split: sum.splits)
qed

theorem redis_field_decimal_witness:
  "redis_field ''a'' ''n'' (''used_memory'', GStr ''4096'') init_gauges =
     oset ''redis_used_memory'' [''a'', ''n''] (Num 4096) init_gauges"
proof -
  have "nat_digits 4096 = ''4096''" by (simp add: fmt_eval)
  with redis_field_decimal [of "''used_memory''" "''redis_used_memory''" 4096 "''a''" "''n''" init_gauges]
  show ?thesis by (simp add: metric_map_def)
qed

subsection \<open>Replication state\<close>

lemma fold_repl_other:
  "''state'' \<notin> fst ` set xs \<Longrightarrow> fold (repl_state_entry server) xs rm = rm"
  by (induction xs arbitrary: rm) (auto simp: repl_state_entry_def)

lemma fold_repl_state:
  assumes "map_of sd ''state'' = Some stv" and "distinct (map fst sd)"
  shows "fold (repl_state_entry server) sd rm =
           (if server = [] then rm else Mapping.update server (fmt_s stv) rm)"
proof -
  obtain p q where "sd = p @ (''state'', stv) # q"
      and "''state'' \<notin> set (map fst p)" and "''state'' \<notin> set (map fst q)"
    using map_of_split_distinct [OF assms] by blast
  then show ?thesis by (auto simp: fold_repl_other repl_state_entry_def)
qed

lemma geach_repl_dic_other:
  "\<forall>kv \<in> set xs. fst kv \<notin> {''server'', ''action''} \<Longrightarrow> geach repl_dic_entry xs st = Inr st"
  by (induction xs arbitrary: st) (auto simp: repl_dic_entry_def Let_def)

text \<open>
  C6. Replication state, server visited first: for a \<^verbatim>\<open>servers\<close> entry whose only
  \<^verbatim>\<open>server\<close> and \<^verbatim>\<open>action\<close> keys are visited in that order, the state of its
  action is recorded under that entry's server text (when it is not empty), whatever the
  server carried from the previous entry.
\<close>

theorem repl_server_server_first:
  assumes "dic = A @ (''server'', sv) # B @ (''action'', GObj sd) # C"
    and "\<forall>kv \<in> set (A @ B @ C). fst kv \<notin> {''server'', ''action''}"
    and "map_of sd ''state'' = Some stv" and "distinct (map fst sd)"
  shows "repl_server (GObj dic) (srv_prev, rm) =
           Inr (fmt_s sv, if fmt_s sv = [] then rm else Mapping.update (fmt_s sv) (fmt_s stv) rm)"
  using assms by (simp add: repl_server_def geach_append geach_repl_dic_other repl_dic_entry_def fold_repl_state Let_def)

text \<open>
  C7. Replication state, action visited first: when Go's map iteration visits the
  \<^verbatim>\<open>action\<close> key of a \<^verbatim>\<open>servers\<close> entry before its \<^verbatim>\<open>server\<close> key, the
  state is recorded under the server carried from the previous entry of the same model
  (or dropped when there is none), not under the entry's own server.
\<close>

theorem repl_server_action_first:
  assumes "dic = A @ (''action'', GObj sd) # B @ (''server'', sv) # C"
    and "\<forall>kv \<in> set (A @ B @ C). fst kv \<notin> {''server'', ''action''}"
    and "map_of sd ''state'' = Some stv" and "distinct (map fst sd)"
  shows "repl_server (GObj dic) (srv_prev, rm) =
           Inr (fmt_s sv, if srv_prev = [] then rm else Mapping.update srv_prev (fmt_s stv) rm)"
  using assms by (simp add: repl_server_def geach_append geach_repl_dic_other repl_dic_entry_def fold_repl_state Let_def)

lemma oeach_oset_samples:
  "oeach (\<lambda>s r. oset N [addr, s] (g s) r) ks reg = Ok reg' \<Longrightarrow>
     sample_of reg' n l = (if n = N \<and> (\<exists>s \<in> set ks. l = [addr, s]) then Some (g (l ! 1)) else sample_of reg n l)"
proof (induction ks arbitrary: reg)
  case Nil
  then show ?case by simp
next
  case (Cons k ks)
  from Cons.prems obtain t where t: "oset N [addr, k] (g k) reg = Ok t"
      and rest: "oeach (\<lambda>s r. oset N [addr, s] (g s) r) ks t = Ok reg'"
    by (auto simp: obind_Ok_iff)
  have "ostate (oset N [addr, k] (g k) reg) = Some t" using t by simp
  from oset_sample [OF this] Cons.IH [OF rest] show ?case by auto
qed

lemma fold_repl_finite:
  "finite (Mapping.keys rm) \<Longrightarrow> finite (Mapping.keys (fold (repl_state_entry server) xs rm))"
  by (induction xs arbitrary: rm) (simp_all add: repl_state_entry_def)

lemma repl_server_finite:
  assumes "repl_server arr st = Inr st'" and "finite (Mapping.keys (snd st))"
  shows "finite (Mapping.keys (snd st'))"
proof -
  obtain dic where "as_obj arr = Inr dic" and g: "geach repl_dic_entry dic st = Inr st'"
    using assms(1) by (auto simp: repl_server_def gbind_Inr_iff)
  show ?thesis
    by (rule geach_invariant [where P = "\<lambda>st. finite (Mapping.keys (snd st))", OF _ assms(2) g])
       (auto simp: repl_dic_entry_def Let_def gbind_Inr_iff fold_repl_finite split: if_splits)
qed

lemma build_repl_map_finite:
  assumes "build_repl_map models = Inr rm"
  shows "finite (Mapping.keys rm)"
proof (rule geach_invariant [where P = "\<lambda>rm. finite (Mapping.keys rm)", OF _ _ assms [unfolded build_repl_map_def]])
  fix v rm0 rm1
  assume fin: "finite (Mapping.keys rm0)" and m: "repl_model v rm0 = Inr rm1"
  then obtain valMap st where "geach repl_model_entry valMap ([], rm0) = Inr st" and "rm1 = snd st"
    by (auto simp: repl_model_def gbind_Inr_iff)
  moreover have "finite (Mapping.keys (snd st))" if "geach repl_model_entry valMap ([], rm0) = Inr st" for st
    by (rule geach_invariant [OF _ _ that])
       (auto simp: fin repl_model_entry_def gbind_Inr_iff split: if_splits
             intro: geach_invariant [where P = "\<lambda>st. finite (Mapping.keys (snd st))"] repl_server_finite)
  ultimately show "finite (Mapping.keys rm1)" by blast
qed simp


text \<open>
  C8. Replication gauge: when the replication map is built from the models without a
  panic and emitted without one, the registry afterwards holds, for every server of the
  map, the sample 1 if its recorded state is \<^verbatim>\<open>synced\<close> and 0 otherwise under
  \<^verbatim>\<open>redis_replication_state\<close> and labels (endpoint, server), and no other sample
  has changed.
\<close>

theorem emit_repl_samples:
  assumes "build_repl_map models = Inr rm" and "emit_repl addr rm reg = Ok reg'"
  shows "sample_of reg' n l =
           (if n = ''redis_replication_state'' \<and> (\<exists>s \<in> Mapping.keys rm. l = [addr, s])
            then Some (if Mapping.lookup rm (l ! 1) = Some ''synced'' then Num 1 else Num 0)
            else sample_of reg n l)"
  using oeach_oset_samples [OF assms(2) [unfolded emit_repl_def]] build_repl_map_finite [OF assms(1)]
  by (auto simp: repl_value_def keys_dom_lookup)

theorem emit_repl_samples_witness:
  "\<exists>rm r. build_repl_map [GObj [(''servers'', GArr
              [GObj [(''server'', GStr ''A''), (''action'', GObj [(''state'', GStr ''synced'')])],
               GObj [(''server'', GStr ''B''), (''action'', GObj [(''state'', GStr ''not_synced'')])]])]] = Inr rm \<and>
     emit_repl ''a'' rm init_gauges = Ok r \<and>
     sample_of r ''redis_replication_state'' [''a'', ''A''] = Some (Num 1) \<and>
     sample_of r ''redis_replication_state'' [''a'', ''B''] = Some (Num 0)"
proof -
  let ?ms = "[GObj [(''servers'', GArr
              [GObj [(''server'', GStr ''A''), (''action'', GObj [(''state'', GStr ''synced'')])],
               GObj [(''server'', GStr ''B''), (''action'', GObj [(''state'', GStr ''not_synced'')])]])]]"
  let ?rm = "Mapping.update ''B'' ''not_synced'' (Mapping.update ''A'' ''synced'' Mapping.empty) :: repl_map"
  have b: "build_repl_map ?ms = Inr ?rm"
    by (simp add: build_repl_map_def repl_model_def repl_model_entry_def repl_server_def repl_dic_entry_def
        repl_state_entry_def fmt_s_GStr Let_def)
  have "\<exists>r. emit_repl ''a'' ?rm init_gauges = Ok r"
    by (simp add: emit_repl_def Mapping.ordered_keys_def reg_eval Let_def insert_commute)
  then obtain r where e: "emit_repl ''a'' ?rm init_gauges = Ok r" ..
  have "sample_of r ''redis_replication_state'' [''a'', s] =
      (if s \<in> {''A'', ''B''} then Some (if Mapping.lookup ?rm s = Some ''synced'' then Num 1 else Num 0)
       else sample_of init_gauges ''redis_replication_state'' [''a'', s])" for s
    using emit_repl_samples [OF b e, of "''redis_replication_state''" "[''a'', s]"] by auto
  from this [of "''A''"] this [of "''B''"] have "sample_of r ''redis_replication_state'' [''a'', ''A''] = Some (Num 1)"
    "sample_of r ''redis_replication_state'' [''a'', ''B''] = Some (Num 0)" by (simp_all add: lookup_update')
  with b e show ?thesis by blast
qed

theorem repl_server_server_first_witness:
  "repl_server (GObj [(''server'', GStr ''A''), (''action'', GObj [(''state'', GStr ''synced'')])]) ([], Mapping.empty) =
     Inr (''A'', Mapping.update ''A'' ''synced'' Mapping.empty)"
  using repl_server_server_first [where dic = "[(''server'', GStr ''A''), (''action'', GObj [(''state'', GStr ''synced'')])]" and A = "[]" and B = "[]" and C = "[]" and sv = "GStr ''A''"
      and sd = "[(''state'', GStr ''synced'')]" and stv = "GStr ''synced''" and srv_prev = "[]" and rm = Mapping.empty]
  by (simp add: fmt_s_GStr)

theorem repl_server_action_first_witness:
  "repl_server (GObj [(''action'', GObj [(''state'', GStr ''synced'')]), (''server'', GStr ''B'')]) (''A'', Mapping.empty) =
     Inr (''B'', Mapping.update ''A'' ''synced'' Mapping.empty)"
  using repl_server_action_first [where dic = "[(''action'', GObj [(''state'', GStr ''synced'')]), (''server'', GStr ''B'')]" and A = "[]" and B = "[]" and C = "[]" and sv = "GStr ''B''"
      and sd = "[(''state'', GStr ''synced'')]" and stv = "GStr ''synced''" and srv_prev = "''A''" and rm = Mapping.empty]
  by (simp add: fmt_s_GStr)

subsection \<open>Proxy fields\<close>

lemma oset_Ok_sample:
  "oset n l v r = Ok r' \<Longrightarrow> sample_of r' n' l' = (if n' = n \<and> l' = l then Some v else sample_of r n' l')"
  by (rule oset_sample) simp

lemma set_asserted_Ok:
  "set_asserted addr pa m key name reg = Ok reg' \<Longrightarrow>
     map_of m key = None \<and> reg' = reg \<or>
     (\<exists>x r. map_of m key = Some x \<and> as_float x = Inr r \<and> oset name [addr, pa] (Num r) reg = Ok reg')"
  by (cases "map_of m key") (auto simp: set_asserted_def gthen_Ok_iff simp del: as_float_Inr_iff)

lemma set_guarded_sample:
  "set_guarded addr pa m key name reg = Ok reg' \<Longrightarrow>
     sample_of reg' n l =
       (case map_of m key of
          None \<Rightarrow> sample_of reg n l
        | Some x \<Rightarrow> if n = name \<and> l = [addr, pa] then Some (guarded_float x) else sample_of reg n l)"
  by (auto simp: set_guarded_def oset_Ok_sample split: option.splits)

lemma set_asserted_other:
  "set_asserted addr pa m key name reg = Ok reg' \<Longrightarrow> n \<noteq> name \<Longrightarrow> sample_of reg' n l = sample_of reg n l"
  by (auto dest!: set_asserted_Ok simp: oset_Ok_sample)

lemma oeach_proxy_untokened:
  "Mapping.lookup tm k = None \<Longrightarrow>
     oeach (proxy_stat_entry addr tm) (xs @ (k, v) # ys) reg = oeach (proxy_stat_entry addr tm) (xs @ ys) reg"
proof -
  assume "Mapping.lookup tm k = None"
  then have "oeach (proxy_stat_entry addr tm) ((k, v) # ys) = oeach (proxy_stat_entry addr tm) ys"
    by (intro ext) (simp add: proxy_stat_entry_def)
  then show ?thesis by (simp add: oeach_append)
qed

text \<open>
  C9. A proxy statistics entry whose token is not in the token map built from
  \<^verbatim>\<open>stats.proxy.models\<close> contributes nothing: removing it from
  \<^verbatim>\<open>stats.proxy.stats\<close> leaves the outcome of the proxy loop unchanged, even when its
  value has the wrong shape.
\<close>

theorem scrape_proxy_stats_untokened:
  assumes "map_of pd ''stats'' = Some (GObj (xs @ (k, v) # ys))"
    and "map_of pd' ''stats'' = Some (GObj (xs @ ys))" and "Mapping.lookup tm k = None"
  shows "scrape_proxy_stats addr tm pd reg = scrape_proxy_stats addr tm pd' reg"
  using assms by (simp add: scrape_proxy_stats_def oeach_proxy_untokened)

theorem scrape_proxy_stats_untokened_witness:
  "scrape_proxy_stats ''a'' (Mapping.update ''t1'' ''p1'' Mapping.empty)
      [(''stats'', GObj [(''t1'', GObj []), (''t2'', GStr ''junk'')])] init_gauges =
   scrape_proxy_stats ''a'' (Mapping.update ''t1'' ''p1'' Mapping.empty)
      [(''stats'', GObj [(''t1'', GObj [])])] init_gauges"
  by (rule scrape_proxy_stats_untokened [where xs = "[(''t1'', GObj [])]" and k = "''t2''" and v = "GStr ''junk''"
        and ys = "[]"]) simp_all

text \<open>
  C10. The failure count of a proxy is read from the \<^verbatim>\<open>ops\<close> key of the
  \<^verbatim>\<open>ops\<close> object (line 294), not from a \<^verbatim>\<open>fails\<close> key: when the ops loop ends
  normally, \<^verbatim>\<open>proxy_ops_fails\<close> is unchanged if that key is absent and otherwise holds
  its number, whatever else the object holds.
\<close>

theorem proxy_ops_fails_key:
  assumes "proxy_ops addr pa sd reg = Ok reg'" and "map_of sd ''ops'' = Some (GObj od)"
  shows "(map_of od ''ops'' = None \<longrightarrow>
            sample_of reg' ''proxy_ops_fails'' [addr, pa] = sample_of reg ''proxy_ops_fails'' [addr, pa]) \<and>
         (\<forall>x. map_of od ''ops'' = Some x \<longrightarrow>
            (\<exists>r. as_float x = Inr r \<and> sample_of reg' ''proxy_ops_fails'' [addr, pa] = Some (Num r)))"
proof -
  from assms obtain r1 r2 where s1: "set_asserted addr pa od ''total'' ''proxy_ops_total'' reg = Ok r1"
      and s2: "set_asserted addr pa od ''ops'' ''proxy_ops_fails'' r1 = Ok r2"
      and s3: "set_asserted addr pa od ''qps'' ''proxy_ops_qps'' r2 = Ok reg'"
    by (auto simp: proxy_ops_def obind_Ok_iff)
  have "sample_of r1 ''proxy_ops_fails'' [addr, pa] = sample_of reg ''proxy_ops_fails'' [addr, pa]"
    using s1 by (rule set_asserted_other) simp
  moreover have "sample_of reg' ''proxy_ops_fails'' [addr, pa] = sample_of r2 ''proxy_ops_fails'' [addr, pa]"
    using s3 by (rule set_asserted_other) simp
  ultimately show ?thesis
    using set_asserted_Ok [OF s2] by (auto simp: oset_Ok_sample)
qed

theorem proxy_ops_fails_key_witness:
  "\<exists>r. proxy_ops ''a'' ''p'' [(''ops'', GObj [(''fails'', GNum 3 0), (''ops'', GNum 5 0)])] init_gauges = Ok r \<and>
       sample_of r ''proxy_ops_fails'' [''a'', ''p''] = Some (Num 5)"
proof -
  have "\<exists>r. proxy_ops ''a'' ''p'' [(''ops'', GObj [(''fails'', GNum 3 0), (''ops'', GNum 5 0)])] init_gauges = Ok r"
    by (simp add: proxy_ops_def set_asserted_def reg_eval)
  then obtain r where ev: "proxy_ops ''a'' ''p'' [(''ops'', GObj [(''fails'', GNum 3 0), (''ops'', GNum 5 0)])]
      init_gauges = Ok r" ..
  from proxy_ops_fails_key [OF ev, where od = "[(''fails'', GNum 3 0), (''ops'', GNum 5 0)]"]
  have "sample_of r ''proxy_ops_fails'' [''a'', ''p''] = Some (Num 5)" by (simp add: dec_val_def pow10_def)
  with ev show ?thesis by blast
qed

text \<open>
  C11. \<^verbatim>\<open>sessions.total\<close> is read with an unguarded assertion: when present with any
  value that is not a JSON number, the sessions step panics with Go's interface
  conversion message.
\<close>

theorem proxy_sessions_total_panics:
  assumes "map_of sd ''sessions'' = Some (GObj sess)" and "map_of sess ''total'' = Some x"
    and "\<forall>m e. x \<noteq> GNum m e"
  shows "proxy_sessions addr pa sd reg = Panic (conv_panic x ''float64'')"
proof -
  have "as_float x = Inl (conv_panic x ''float64'')" using assms(3) by (cases x) auto
  with assms(1,2) show ?thesis by (simp add: proxy_sessions_def set_asserted_def)
qed

theorem proxy_sessions_total_panics_witness:
  "proxy_sessions ''a'' ''p'' [(''sessions'', GObj [(''total'', GStr ''7'')])] init_gauges =
     Panic (conv_panic (GStr ''7'') ''float64'')"
  by (rule proxy_sessions_total_panics [where sess = "[(''total'', GStr ''7'')]"]) simp_all

lemma nav_write_proxy: "name \<in> set proxy_written \<Longrightarrow> nav_write addr name [addr, pa]"
  by (simp add: nav_write_def)

lemma set_asserted_number:
  assumes "catalog_ok reg" and "name \<in> set proxy_written"
    and "\<forall>t. map_of m key = Some t \<longrightarrow> (\<exists>i e. t = GNum i e)"
  shows "\<exists>r. set_asserted addr pa m key name reg = Ok r \<and> catalog_ok r"
proof (cases "map_of m key")
  case None
  with assms(1) show ?thesis by (simp add: set_asserted_def)
next
  case (Some t)
  with assms(3) obtain i e where t: "t = GNum i e" by blast
  obtain r where g: "gauge_set name [addr, pa] (Num (dec_val i e)) reg = Inr r"
    using catalog_write_total [OF assms(1) nav_write_proxy [OF assms(2)]] by blast
  have "catalog_ok r" using gs_closed_catalog_ok assms(1) g unfolding gs_closed_def by blast
  with Some t g show ?thesis by (simp add: set_asserted_def)
qed

lemma set_guarded_any:
  assumes "catalog_ok reg" and "name \<in> set proxy_written" and "map_of m key = Some x"
  shows "\<exists>r. set_guarded addr pa m key name reg = Ok r \<and> sample_of r name [addr, pa] = Some (guarded_float x)"
proof -
  obtain r where g: "gauge_set name [addr, pa] (guarded_float x) reg = Inr r"
    using catalog_write_total [OF assms(1) nav_write_proxy [OF assms(2)]] by blast
  with assms(3) show ?thesis by (simp add: set_guarded_def sample_of_gauge_set)
qed

text \<open>
  C12. \<^verbatim>\<open>sessions.alive\<close> is read with a guarded assertion: from a registry holding
  the catalog, a sessions object whose \<^verbatim>\<open>total\<close> is absent or a number and whose
  \<^verbatim>\<open>alive\<close> is any JSON value is read without a panic, and
  \<^verbatim>\<open>proxy_sessions_alive\<close> then holds the number, or 0 for a value of any other type.
\<close>

theorem proxy_sessions_alive_default:
  assumes "catalog_ok reg" and "map_of sd ''sessions'' = Some (GObj sess)"
    and "\<forall>t. map_of sess ''total'' = Some t \<longrightarrow> (\<exists>i e. t = GNum i e)"
    and "map_of sess ''alive'' = Some x"
  shows "\<exists>reg'. proxy_sessions addr pa sd reg = Ok reg' \<and>
           sample_of reg' ''proxy_sessions_alive'' [addr, pa] =
             Some (case x of GNum i e \<Rightarrow> Num (dec_val i e) | _ \<Rightarrow> Num 0)"
proof -
  obtain r1 where s1: "set_asserted addr pa sess ''total'' ''proxy_sessions_total'' reg = Ok r1"
      and c1: "catalog_ok r1"
    using set_asserted_number [OF assms(1) _ assms(3), of "''proxy_sessions_total''" addr pa]
    by (auto simp: proxy_written_def)
  obtain r2 where s2: "set_guarded addr pa sess ''alive'' ''proxy_sessions_alive'' r1 = Ok r2"
      and v: "sample_of r2 ''proxy_sessions_alive'' [addr, pa] = Some (guarded_float x)"
    using set_guarded_any [OF c1 _ assms(4), of "''proxy_sessions_alive''" addr pa]
    by (auto simp: proxy_written_def)
  from assms(2) s1 s2 v show ?thesis
    by (simp add: proxy_sessions_def guarded_float_def)
qed

theorem proxy_sessions_alive_default_witness:
  "\<exists>r. proxy_sessions ''a'' ''p'' [(''sessions'', GObj [(''total'', GNum 7 0), (''alive'', GStr ''x'')])]
         init_gauges = Ok r \<and>
       sample_of r ''proxy_sessions_alive'' [''a'', ''p''] = Some (Num 0)"
  using proxy_sessions_alive_default [OF catalog_ok_init_gauges,
      where sd = "[(''sessions'', GObj [(''total'', GNum 7 0), (''alive'', GStr ''x'')])]"
        and sess = "[(''total'', GNum 7 0), (''alive'', GStr ''x'')]" and x = "GStr ''x''"
        and addr = "''a''" and pa = "''p''"]
  by simp

subsection \<open>Proxy topology\<close>

lemma geach_proxy_model_complete:
  "\<forall>v \<in> set vs. \<exists>d. v = GObj d \<and> go_has d ''token'' \<and> go_has d ''proxy_addr'' \<Longrightarrow>
     \<exists>t a. geach proxy_model_entry vs st = Inr (t, a, fold token_entry vs (snd (snd st)))"
proof (induction vs arbitrary: st)
  case Nil
  then show ?case by (cases st) auto
next
  case (Cons v vs)
  then obtain d where v: "v = GObj d" and "go_has d ''token''" "go_has d ''proxy_addr''" by auto
  then have "proxy_model_entry v st = Inr (fmt_s (go_index d ''token''), fmt_s (go_index d ''proxy_addr''),
      token_entry v (snd (snd st)))"
    by (simp add: proxy_model_entry_def token_entry_def Let_def)
  with Cons.IH [of "(fmt_s (go_index d ''token''), fmt_s (go_index d ''proxy_addr''), token_entry v (snd (snd st)))"]
    Cons.prems show ?case by auto
qed

text \<open>
  C23. Token map: when every proxy model carries both \<^verbatim>\<open>token\<close> and
  \<^verbatim>\<open>proxy_addr\<close>, the token map is built without a panic and maps each token to the
  address of the last model that names it.
\<close>

theorem build_token_map_complete:
  assumes "map_of pd ''models'' = Some (GArr vs)"
    and "\<forall>v \<in> set vs. \<exists>d. v = GObj d \<and> go_has d ''token'' \<and> go_has d ''proxy_addr''"
  shows "build_token_map pd = Inr (fold token_entry vs Mapping.empty)"
proof -
  obtain t a where "geach proxy_model_entry vs ([], [], Mapping.empty) = Inr (t, a, fold token_entry vs Mapping.empty)"
    using geach_proxy_model_complete [OF assms(2), of "([], [], Mapping.empty)"] by auto
  with assms(1) show ?thesis by (simp add: build_token_map_def go_has_def go_index_def)
qed

theorem build_token_map_complete_witness:
  "build_token_map [(''models'', GArr [GObj [(''token'', GStr ''t1''), (''proxy_addr'', GStr ''p1'')],
                                      GObj [(''token'', GStr ''t2''), (''proxy_addr'', GStr ''p2'')]])] =
     Inr (Mapping.update ''t2'' ''p2'' (Mapping.update ''t1'' ''p1'' Mapping.empty))"
  using build_token_map_complete [of "[(''models'', GArr [GObj [(''token'', GStr ''t1''), (''proxy_addr'', GStr ''p1'')],
                                      GObj [(''token'', GStr ''t2''), (''proxy_addr'', GStr ''p2'')]])]"
      "[GObj [(''token'', GStr ''t1''), (''proxy_addr'', GStr ''p1'')], GObj [(''token'', GStr ''t2''), (''proxy_addr'', GStr ''p2'')]]"]
  by (simp add: go_has_def token_entry_def go_index_def)

text \<open>
  C24. A proxy model without a \<^verbatim>\<open>token\<close> key reuses the token of the model before
  it (the variables \<^verbatim>\<open>token\<close> and \<^verbatim>\<open>proxyAddr\<close> are declared outside the loop):
  whatever models come first, when a model with a token is followed by one with an address
  but no token, the token map sends the first model's token to the second model's
  address, so the statistics of the first proxy are labelled with another proxy's address.
\<close>

theorem build_token_map_reuses_token:
  assumes "map_of pd ''models'' = Some (GArr (vs @ [GObj dA, GObj dB]))"
    and "go_has dA ''token''" and "\<not> go_has dB ''token''" and "go_has dB ''proxy_addr''"
    and "build_token_map pd = Inr tm"
  shows "Mapping.lookup tm (fmt_s (go_index dA ''token'')) = Some (fmt_s (go_index dB ''proxy_addr''))"
proof -
  from assms(1,5) obtain st s1 st' where p1: "proxy_model_entry (GObj dA) st = Inr s1"
      and p2: "proxy_model_entry (GObj dB) s1 = Inr st'" and tm: "tm = snd (snd st')"
    by (force simp: build_token_map_def go_has_def go_index_def geach_append gbind_Inr_iff)
  from p1 assms(2) have "fst s1 = fmt_s (go_index dA ''token'')"
    by (auto simp: proxy_model_entry_def Let_def)
  with p2 tm assms(3,4) show ?thesis
    by (auto simp: proxy_model_entry_def Let_def lookup_update')
qed

theorem build_token_map_reuses_token_witness:
  "\<exists>tm. build_token_map [(''models'', GArr [GObj [(''token'', GStr ''t1''), (''proxy_addr'', GStr ''p1'')],
                                      GObj [(''proxy_addr'', GStr ''p2'')]])] = Inr tm \<and>
     Mapping.lookup tm ''t1'' = Some ''p2''"
proof -
  let ?pd = "[(''models'', GArr [GObj [(''token'', GStr ''t1''), (''proxy_addr'', GStr ''p1'')],
                                GObj [(''proxy_addr'', GStr ''p2'')]])]"
  have "\<exists>tm. build_token_map ?pd = Inr tm"
    by (simp add: build_token_map_def proxy_model_entry_def go_has_def go_index_def Let_def)
  then obtain tm where b: "build_token_map ?pd = Inr tm" ..
  have "Mapping.lookup tm ''t1'' = Some ''p2''"
    using build_token_map_reuses_token [OF _ _ _ _ b, where vs = "[]"
        and dA = "[(''token'', GStr ''t1''), (''proxy_addr'', GStr ''p1'')]" and dB = "[(''proxy_addr'', GStr ''p2'')]"]
    by (simp add: go_has_def go_index_def)
  with b show ?thesis by blast
qed

end
