(* ===== verification/Exporter.thy ===== *)
theory Exporter
  imports Navigator
begin

text \<open>
  The pass orchestrator: \<^verbatim>\<open>Exporter\<close>, \<^verbatim>\<open>NewCodisCollector\<close>, \<^verbatim>\<open>Collect\<close>,
  \<^verbatim>\<open>scrape\<close>, \<^verbatim>\<open>scrapeCodisUri\<close> and \<^verbatim>\<open>setMetrics\<close> of
  \<^verbatim>\<open>src/collector/codis_collector.go\<close>.
  \<^item> \<open>exporter\<close>: the struct (lines 23--32); the two bookkeeping gauges and the
    counter are their values, \<open>mtx_readers\<close> is the number of read locks held on
    \<^verbatim>\<open>metricsMtx\<close>, the only part of that lock that outlives a pass.
  \<^item> \<open>response\<close>: what \<^verbatim>\<open>http.Get\<close> and \<^verbatim>\<open>ioutil.ReadAll\<close> give for an endpoint;
    a pass takes the responses as a function of the address.
  \<^item> \<open>scrape_codis_uri\<close>: \<^verbatim>\<open>scrapeCodisUri\<close> (lines 182--367), with the read lock
    taken at line 204 and released by the \<^verbatim>\<open>defer\<close> registered at line 365, so that an
    error returned at line 214 keeps it for ever.
  \<^item> \<open>set_metric\<close>: one iteration of \<^verbatim>\<open>setMetrics\<close> (lines 369--383): a missing ad hoc
    vector is created under \<^verbatim>\<open>metricsMtx.Lock()\<close>, which waits while a read lock is
    held. A read lock kept by an earlier error is never released, so the wait never
    ends: the pass is \<open>Hang\<close>.
  \<^item> \<open>scrape_loop\<close>: the producer \<^verbatim>\<open>scrape\<close> (lines 165--180) and the consumer
    \<^verbatim>\<open>setMetrics\<close>, interleaved as the unbuffered channel \<^verbatim>\<open>scrapes\<close> lets them:
    each result is consumed before the producer visits the next endpoint.
  \<^item> \<open>collect\<close>: \<^verbatim>\<open>Collect\<close> (lines 149--163): \<^verbatim>\<open>initGauges\<close>, the counter,
    the loop, the two gauges, then the samples sent to the channel.
  \<^item> \<open>run_collects\<close>: successive calls of \<^verbatim>\<open>Collect\<close>, serialised by the exporter's
    lock; a pass that hangs holds that lock, so every later pass waits for ever.
  The lemmas follow the composition: what one endpoint changes (its registry keys, the
  vectors it cannot write, the read locks it keeps), what one \<^verbatim>\<open>up\<close> result changes,
  the producer loop by induction on the endpoint list, then whole passes. The claims:
  C13--C18, C20, C22, C25 and C27; then the exporters reachable by completed passes,
  by rule induction (C26).
\<close>

record exporter =
  codis :: "string list"
  namespace :: string
  duration :: fval
  scrape_errors :: fval
  total_scrapes :: nat
  metrics :: registry
  mtx_readers :: nat

definition new_codis_collector :: "string list \<Rightarrow> string \<Rightarrow> exporter" where
  "new_codis_collector uri ns =
     \<lparr>codis = uri, namespace = ns, duration = Num 0, scrape_errors = Num 0, total_scrapes = 0,
      metrics = Mapping.empty, mtx_readers = 0\<rparr>"

datatype body = ReadFailed | BadJson | Json gval

datatype response = GetFailed | Resp nat body

datatype uri_result = UPanic string | URet "err option" registry nat

record scrape_result =
  sr_name :: string
  sr_addr :: string
  sr_value :: fval

datatype 'a pass = Crash string | Hang | Done 'a

subsection \<open>One endpoint\<close>

text \<open>
  The status code of the response is not looked at (line 184 only checks the transport
  error), so it is carried but unused.
\<close>

definition scrape_codis_uri :: "response \<Rightarrow> string \<Rightarrow> registry \<Rightarrow> nat \<Rightarrow> uri_result" where
  "scrape_codis_uri resp addr reg rd =
     (case resp of
        GetFailed \<Rightarrow> URet (Some HttpGetErr) reg rd
      | Resp status ReadFailed \<Rightarrow> URet (Some ReadBodyErr) reg rd
      | Resp status BadJson \<Rightarrow> URet (Some JsonErr) reg rd
      | Resp status (Json j) \<Rightarrow>
          (case unmarshal_obj j of
             None \<Rightarrow> URet (Some JsonErr) reg rd
           | Some result \<Rightarrow>
               (case doc_sections result of
                  Inl p \<Rightarrow> UPanic p
                | Inr (stats, serverStats, models) \<Rightarrow>
                    (let rd1 = Suc rd in
                     case scrape_body addr stats serverStats models reg of
                       Panic p \<Rightarrow> UPanic p
                     | Err e reg' \<Rightarrow> URet (Some e) reg' rd1
                     | Ok reg' \<Rightarrow> URet None reg' (rd1 - 1)))))"

subsection \<open>The consumer\<close>

definition set_metric :: "string \<Rightarrow> nat \<Rightarrow> scrape_result \<Rightarrow> registry \<Rightarrow> registry pass" where
  "set_metric ns rd src reg =
     (let name = sr_name src in
      if Mapping.lookup reg name = None \<and> 0 < rd then Hang
      else (case gauge_set_with name [(''addr'', sr_addr src)] (sr_value src) (ensure_adhoc ns name reg) of
              Inl p \<Rightarrow> Crash p
            | Inr reg' \<Rightarrow> Done reg'))"

subsection \<open>The producer and the pass\<close>

definition up_value :: "err option \<Rightarrow> fval" where
  "up_value r = (if r = None then Num 1 else Num 0)"

fun scrape_loop :: "(string \<Rightarrow> response) \<Rightarrow> string list \<Rightarrow> nat \<Rightarrow> exporter \<Rightarrow> (nat \<times> exporter) pass" where
  "scrape_loop fetch [] errs e = Done (errs, e)"
| "scrape_loop fetch (addr # rest) errs e =
     (case scrape_codis_uri (fetch addr) addr (metrics e) (mtx_readers e) of
        UPanic p \<Rightarrow> Crash p
      | URet r reg rd \<Rightarrow>
          (case set_metric (namespace e) rd \<lparr>sr_name = ''up'', sr_addr = addr, sr_value = up_value r\<rparr> reg of
             Crash p \<Rightarrow> Crash p
           | Hang \<Rightarrow> Hang
           | Done reg' \<Rightarrow>
               scrape_loop fetch rest (if r = None then errs else Suc errs)
                 (e\<lparr>metrics := reg', mtx_readers := rd\<rparr>)))"

definition bookkeeping :: "exporter \<Rightarrow> sample list" where
  "bookkeeping e =
     [(build_fq_name (namespace e) ''exporter_last_scrape_duration_seconds'', [], duration e),
      (build_fq_name (namespace e) ''exporter_scrapes_total'', [], Num (of_nat (total_scrapes e))),
      (build_fq_name (namespace e) ''exporter_last_scrape_error'', [], scrape_errors e)]"

definition collect :: "(string \<Rightarrow> response) \<Rightarrow> int \<Rightarrow> int \<Rightarrow> exporter \<Rightarrow> (exporter \<times> sample list) pass" where
  "collect fetch t0 t1 e =
     (let e1 = e\<lparr>metrics := init_gauges, total_scrapes := Suc (total_scrapes e)\<rparr> in
      case scrape_loop fetch (codis e1) 0 e1 of
        Crash p \<Rightarrow> Crash p
      | Hang \<Rightarrow> Hang
      | Done (errs, e2) \<Rightarrow>
          (let e3 = e2\<lparr>scrape_errors := Num (of_nat errs), duration := Num (of_int (t1 - t0) / 1000000000)\<rparr>
           in Done (e3, bookkeeping e3 @ collect_metrics (metrics e3))))"

text \<open>
  Successive passes, each with the responses and the two clock readings it sees; the
  result lists the samples of every pass that completed before a crash or a hang.
\<close>

fun run_collects ::
  "((string \<Rightarrow> response) \<times> int \<times> int) list \<Rightarrow> exporter \<Rightarrow> sample list list \<times> exporter pass" where
  "run_collects [] e = ([], Done e)"
| "run_collects ((fetch, t0, t1) # ps) e =
     (case collect fetch t0 t1 e of
        Crash p \<Rightarrow> ([], Crash p)
      | Hang \<Rightarrow> ([], Hang)
      | Done (e', out) \<Rightarrow> (let (outs, r) = run_collects ps e' in (out # outs, r)))"

text \<open>
  \<open>up_ok\<close>: the ad hoc \<^verbatim>\<open>up\<close> vector, when it exists, has the single label
  \<^verbatim>\<open>addr\<close> that \<^verbatim>\<open>setMetrics\<close> gives it.
\<close>

definition up_ok :: "registry \<Rightarrow> bool" where
  "up_ok reg \<longleftrightarrow> (\<forall>gv. Mapping.lookup reg ''up'' = Some gv \<longrightarrow> gv_labels gv = [''addr''])"

text \<open>
  \<open>names_ok ns\<close>: the fully qualified name of each vector: the ad hoc \<^verbatim>\<open>up\<close>
  vector under the exporter's namespace \<open>ns\<close>, every other under the package constant
  \<^verbatim>\<open>namespace\<close> (line 16) that \<^verbatim>\<open>initGauges\<close> uses.
\<close>

definition names_ok :: "string \<Rightarrow> registry \<Rightarrow> bool" where
  "names_ok ns reg \<longleftrightarrow> (\<forall>n gv. Mapping.lookup reg n = Some gv \<longrightarrow>
     gv_name gv = (if n = ''up'' then build_fq_name ns n else build_fq_name codis_namespace n))"


subsection \<open>One endpoint: what it changes\<close>

lemma gauge_set_lookup_other:
  "gauge_set name lvs v reg = Inr reg' \<Longrightarrow> n \<noteq> name \<Longrightarrow> Mapping.lookup reg' n = Mapping.lookup reg n"
  by (auto simp: gauge_set_Ok_iff lookup_update')

lemma gs_closed_lookup: "(\<And>l. \<not> W n l) \<Longrightarrow> gs_closed W (\<lambda>r. Mapping.lookup r n = c)"
  unfolding gs_closed_def by (metis gauge_set_lookup_other)

lemma gs_closed_keys: "gs_closed W (\<lambda>r. Mapping.keys r = K)"
  unfolding gs_closed_def by (metis gauge_set_keys)

lemma nav_write_up: "\<not> nav_write addr ''up'' l"
  by (simp add: nav_write_def metric_map_def proxy_written_def)

lemma scrape_codis_uri_URet:
  assumes "scrape_codis_uri resp addr reg rd = URet res reg' rd'"
  shows "reg' = reg \<and> rd' = rd \<and> res \<noteq> None \<or>
         (\<exists>st ss ms. ostate (scrape_body addr st ss ms reg) = Some reg' \<and>
            rd' = (if res = None then rd else Suc rd))"
  using assms
  by (auto simp: scrape_codis_uri_def Let_def split: response.splits body.splits option.splits sum.splits
        outcome.splits) (metis ostate.simps(2,3))+

lemma scrape_codis_uri_readers:
  "scrape_codis_uri resp addr reg rd = URet res reg' rd' \<Longrightarrow> rd \<le> rd' \<and> (res = None \<longrightarrow> rd' = rd)"
  by (drule scrape_codis_uri_URet) auto

lemma scrape_codis_uri_preserves:
  assumes "scrape_codis_uri resp addr reg rd = URet res reg' rd'" and "gs_closed (nav_write addr) P" and "P reg"
  shows "P reg'"
  using scrape_codis_uri_URet [OF assms(1)]
proof (elim disjE exE conjE)
  fix st ss ms
  assume "ostate (scrape_body addr st ss ms reg) = Some reg'"
  from outcome_ok_ostate [OF scrape_body_ok [OF assms(2,3)] this] show ?thesis .
qed (use assms(3) in simp_all)

lemma scrape_codis_uri_keys:
  "scrape_codis_uri resp addr reg rd = URet res reg' rd' \<Longrightarrow> Mapping.keys reg' = Mapping.keys reg"
  by (rule scrape_codis_uri_preserves [where P = "\<lambda>r. Mapping.keys r = Mapping.keys reg", OF _ gs_closed_keys refl])

lemma scrape_codis_uri_lookup:
  "scrape_codis_uri resp addr reg rd = URet res reg' rd' \<Longrightarrow> (\<And>l. \<not> nav_write addr n l) \<Longrightarrow>
     Mapping.lookup reg' n = Mapping.lookup reg n"
  by (rule scrape_codis_uri_preserves [where P = "\<lambda>r. Mapping.lookup r n = Mapping.lookup reg n"])
     (blast intro: gs_closed_lookup)+

lemma gauge_set_names:
  "gauge_set name lvs v reg = Inr reg' \<Longrightarrow>
     map_option gv_name (Mapping.lookup reg' n) = map_option gv_name (Mapping.lookup reg n)"
  by (auto simp: gauge_set_Ok_iff lookup_update')

lemma gs_closed_names: "gs_closed W (names_ok ns)"
  unfolding gs_closed_def names_ok_def
proof (intro allI impI)
  fix n l v r r' m gv
  assume all: "\<forall>m gv. Mapping.lookup r m = Some gv \<longrightarrow>
      gv_name gv = (if m = ''up'' then build_fq_name ns m else build_fq_name codis_namespace m)"
    and g: "gauge_set n l v r = Inr r'" and look: "Mapping.lookup r' m = Some gv"
  from gauge_set_names [OF g, of m] look obtain gv0 where "Mapping.lookup r m = Some gv0" "gv_name gv0 = gv_name gv"
    by (cases "Mapping.lookup r m") auto
  with all show "gv_name gv = (if m = ''up'' then build_fq_name ns m else build_fq_name codis_namespace m)" by metis
qed


subsection \<open>The consumer and the producer loop\<close>

lemma set_metric_Done:
  assumes "set_metric ns rd src reg = Done reg'"
    and "\<forall>gv. Mapping.lookup reg (sr_name src) = Some gv \<longrightarrow> gv_labels gv = [''addr'']"
  shows "Mapping.lookup reg (sr_name src) = None \<longrightarrow> rd = 0"
    and "Mapping.keys reg' = insert (sr_name src) (Mapping.keys reg)"
    and "\<forall>gv. Mapping.lookup reg' (sr_name src) = Some gv \<longrightarrow> gv_labels gv = [''addr'']"
    and "n \<noteq> sr_name src \<Longrightarrow> Mapping.lookup reg' n = Mapping.lookup reg n"
    and "sample_of reg' n l = (if n = sr_name src \<and> l = [sr_addr src] then Some (sr_value src) else sample_of reg n l)"
proof -
  let ?r = "ensure_adhoc ns (sr_name src) reg"
  obtain gv where gv: "Mapping.lookup ?r (sr_name src) = Some gv" and lab: "gv_labels gv = [''addr'']"
    using assms(2) by (cases "Mapping.lookup reg (sr_name src)") (auto simp: ensure_adhoc_def new_gauge_vec_def)
  have r_keys: "Mapping.keys ?r = insert (sr_name src) (Mapping.keys reg)"
    by (cases "Mapping.lookup reg (sr_name src)") (auto simp: ensure_adhoc_def keys_is_none_rep)
  have r_other: "n \<noteq> sr_name src \<Longrightarrow> Mapping.lookup ?r n = Mapping.lookup reg n" for n
    by (simp add: ensure_adhoc_def lookup_update')
  have r_sample: "sample_of ?r n l = sample_of reg n l" for n l
    by (simp add: ensure_adhoc_def sample_of_def lookup_update' new_gauge_vec_def)
  from assms(1) have nh: "\<not> (Mapping.lookup reg (sr_name src) = None \<and> 0 < rd)"
    and gs: "gauge_set (sr_name src) [sr_addr src] (sr_value src) ?r = Inr reg'"
    using gv lab by (auto simp: set_metric_def Let_def gauge_set_with_def split: if_splits sum.splits)
  show "Mapping.lookup reg (sr_name src) = None \<longrightarrow> rd = 0" using nh by auto
  show "Mapping.keys reg' = insert (sr_name src) (Mapping.keys reg)" using gauge_set_keys [OF gs] r_keys by simp
  show "\<forall>gv. Mapping.lookup reg' (sr_name src) = Some gv \<longrightarrow> gv_labels gv = [''addr'']"
    using gauge_set_labels [OF gs, of "sr_name src"] gv lab by auto
  show "n \<noteq> sr_name src \<Longrightarrow> Mapping.lookup reg' n = Mapping.lookup reg n"
    using gauge_set_lookup_other [OF gs] r_other by simp
  show "sample_of reg' n l = (if n = sr_name src \<and> l = [sr_addr src] then Some (sr_value src) else sample_of reg n l)"
    using sample_of_gauge_set [OF gs] r_sample by simp
qed

lemma set_metric_not_Hang:
  assumes "Mapping.lookup reg (sr_name src) \<noteq> None \<or> rd = 0"
    and "\<forall>gv. Mapping.lookup reg (sr_name src) = Some gv \<longrightarrow> gv_labels gv = [''addr'']"
  shows "\<exists>reg'. set_metric ns rd src reg = Done reg'"
proof -
  let ?r = "ensure_adhoc ns (sr_name src) reg"
  obtain gv where gv: "Mapping.lookup ?r (sr_name src) = Some gv" and lab: "gv_labels gv = [''addr'']"
    using assms(2) by (cases "Mapping.lookup reg (sr_name src)") (auto simp: ensure_adhoc_def new_gauge_vec_def)
  then show ?thesis using assms(1)
    by (auto simp: set_metric_def Let_def gauge_set_with_def gauge_set_def)
qed

lemma set_metric_Hang:
  "Mapping.lookup reg (sr_name src) = None \<Longrightarrow> 0 < rd \<Longrightarrow> set_metric ns rd src reg = Hang"
  by (simp add: set_metric_def)

lemma scrape_loop_fields:
  "scrape_loop fetch as errs e = Done (errs', e') \<Longrightarrow>
     codis e' = codis e \<and> namespace e' = namespace e \<and> total_scrapes e' = total_scrapes e \<and>
     mtx_readers e \<le> mtx_readers e'"
proof (induction fetch as errs e rule: scrape_loop.induct)
  case (1 fetch errs e)
  then show ?case by simp
next
  case (2 fetch addr rest errs e)
  then show ?case
    by (auto split: uri_result.splits pass.splits dest!: scrape_codis_uri_readers) (fastforce+)
qed

lemma scrape_codis_uri_up:
  assumes "scrape_codis_uri resp addr reg rd = URet res reg' rd'"
  shows "Mapping.lookup reg' ''up'' = Mapping.lookup reg ''up''"
  using assms nav_write_up by (rule scrape_codis_uri_lookup)

lemma scrape_loop_step:
  assumes "scrape_codis_uri resp addr (metrics e) (mtx_readers e) = URet res reg rd"
    and "set_metric (namespace e) rd \<lparr>sr_name = ''up'', sr_addr = addr, sr_value = up_value res\<rparr> reg = Done reg'"
    and "up_ok (metrics e)"
  shows "up_ok reg'" and "Mapping.keys reg' = insert ''up'' (Mapping.keys (metrics e))"
    and "sample_of reg' ''up'' l = (if l = [addr] then Some (up_value res) else sample_of (metrics e) ''up'' l)"
proof -
  have up: "Mapping.lookup reg ''up'' = Mapping.lookup (metrics e) ''up''" using assms(1) by (rule scrape_codis_uri_up)
  have lab: "\<forall>gv. Mapping.lookup reg (sr_name \<lparr>sr_name = ''up'', sr_addr = addr, sr_value = up_value res\<rparr>) = Some gv \<longrightarrow>
      gv_labels gv = [''addr'']" using up assms(3) by (simp add: up_ok_def)
  note d = set_metric_Done [OF assms(2) lab]
  show "up_ok reg'" using d(3) by (simp add: up_ok_def)
  show "Mapping.keys reg' = insert ''up'' (Mapping.keys (metrics e))"
    using d(2) scrape_codis_uri_keys [OF assms(1)] by simp
  have "sample_of reg ''up'' l = sample_of (metrics e) ''up'' l" using up by (simp add: sample_of_def)
  with d(5) [of "''up''" l] show "sample_of reg' ''up'' l =
      (if l = [addr] then Some (up_value res) else sample_of (metrics e) ''up'' l)" by simp
qed

lemma scrape_loop_Cons_Done:
  assumes "scrape_loop fetch (addr # rest) errs e = Done (errs', e')"
  obtains res reg rd reg' where "scrape_codis_uri (fetch addr) addr (metrics e) (mtx_readers e) = URet res reg rd"
    and "set_metric (namespace e) rd \<lparr>sr_name = ''up'', sr_addr = addr, sr_value = up_value res\<rparr> reg = Done reg'"
    and "scrape_loop fetch rest (if res = None then errs else Suc errs) (e\<lparr>metrics := reg', mtx_readers := rd\<rparr>) =
           Done (errs', e')"
  using assms by (auto split: uri_result.splits pass.splits)

lemma scrape_loop_keys:
  "scrape_loop fetch as errs e = Done (errs', e') \<Longrightarrow> up_ok (metrics e) \<Longrightarrow>
     Mapping.keys (metrics e') = Mapping.keys (metrics e) \<union> (if as = [] then {} else {''up''})"
proof (induction as arbitrary: errs e)
  case Nil
  then show ?case by simp
next
  case (Cons addr rest)
  from Cons.prems(1) obtain res reg rd reg' where u: "scrape_codis_uri (fetch addr) addr (metrics e) (mtx_readers e) = URet res reg rd"
    and s: "set_metric (namespace e) rd \<lparr>sr_name = ''up'', sr_addr = addr, sr_value = up_value res\<rparr> reg = Done reg'"
    and l: "scrape_loop fetch rest (if res = None then errs else Suc errs) (e\<lparr>metrics := reg', mtx_readers := rd\<rparr>) =
           Done (errs', e')"
    by (rule scrape_loop_Cons_Done)
  note st = scrape_loop_step [OF u s Cons.prems(2)]
  from Cons.IH [OF l] st(1,2) show ?case by auto
qed

lemma scrape_loop_up:
  "scrape_loop fetch as errs e = Done (errs', e') \<Longrightarrow> up_ok (metrics e) \<Longrightarrow> distinct as \<Longrightarrow>
     (\<forall>a. a \<notin> set as \<longrightarrow> sample_of (metrics e') ''up'' [a] = sample_of (metrics e) ''up'' [a]) \<and>
     (\<forall>a \<in> set as. sample_of (metrics e') ''up'' [a] \<in> {Some (Num 0), Some (Num 1)}) \<and>
     (\<forall>a \<in> set as. fetch a = GetFailed \<longrightarrow> sample_of (metrics e') ''up'' [a] = Some (Num 0)) \<and>
     errs' = errs + length (filter (\<lambda>a. sample_of (metrics e') ''up'' [a] = Some (Num 0)) as)"
proof (induction as arbitrary: errs e)
  case Nil
  then show ?case by simp
next
  case (Cons addr rest)
  from Cons.prems(1) obtain res reg rd reg' where u: "scrape_codis_uri (fetch addr) addr (metrics e) (mtx_readers e) = URet res reg rd"
    and s: "set_metric (namespace e) rd \<lparr>sr_name = ''up'', sr_addr = addr, sr_value = up_value res\<rparr> reg = Done reg'"
    and l: "scrape_loop fetch rest (if res = None then errs else Suc errs) (e\<lparr>metrics := reg', mtx_readers := rd\<rparr>) =
           Done (errs', e')"
    by (rule scrape_loop_Cons_Done)
  note st = scrape_loop_step [OF u s Cons.prems(2)]
  have IH: "(\<forall>a. a \<notin> set rest \<longrightarrow> sample_of (metrics e') ''up'' [a] = sample_of reg' ''up'' [a]) \<and>
     (\<forall>a \<in> set rest. sample_of (metrics e') ''up'' [a] \<in> {Some (Num 0), Some (Num 1)}) \<and>
     (\<forall>a \<in> set rest. fetch a = GetFailed \<longrightarrow> sample_of (metrics e') ''up'' [a] = Some (Num 0)) \<and>
     errs' = (if res = None then errs else Suc errs) +
       length (filter (\<lambda>a. sample_of (metrics e') ''up'' [a] = Some (Num 0)) rest)"
    using Cons.IH [OF l] st(1) Cons.prems(3) by simp
  have na: "addr \<notin> set rest" using Cons.prems(3) by simp
  have fin: "sample_of (metrics e') ''up'' [addr] = Some (up_value res)" using IH na st(3) [of "[addr]"] by simp
  have gf: "fetch addr = GetFailed \<Longrightarrow> res \<noteq> None" using u by (auto simp: scrape_codis_uri_def)
  show ?case
  proof (intro conjI)
    show "\<forall>a. a \<notin> set (addr # rest) \<longrightarrow> sample_of (metrics e') ''up'' [a] = sample_of (metrics e) ''up'' [a]"
      using IH st(3) by simp
    show "\<forall>a \<in> set (addr # rest). sample_of (metrics e') ''up'' [a] \<in> {Some (Num 0), Some (Num 1)}"
      using IH fin by (simp add: up_value_def)
    show "\<forall>a \<in> set (addr # rest). fetch a = GetFailed \<longrightarrow> sample_of (metrics e') ''up'' [a] = Some (Num 0)"
      using IH fin gf by (auto simp: up_value_def)
    show "errs' = errs + length (filter (\<lambda>a. sample_of (metrics e') ''up'' [a] = Some (Num 0)) (addr # rest))"
      using IH fin by (simp add: up_value_def)
  qed
qed

lemma lookup_init_gauges_up [simp]: "Mapping.lookup init_gauges ''up'' = None"
  by (simp add: lookup_init_gauges metric_map_def proxy_metric_map_def)

lemma set_metric_preserves:
  assumes "set_metric ns rd src reg = Done reg'" and "\<And>W. gs_closed W P"
    and "P (ensure_adhoc ns (sr_name src) reg)"
  shows "P reg'"
proof -
  from assms(1) obtain lvs where "gauge_set (sr_name src) lvs (sr_value src) (ensure_adhoc ns (sr_name src) reg) = Inr reg'"
    by (auto simp: set_metric_def Let_def gauge_set_with_def split: if_splits sum.splits option.splits)
  with assms(2) [of "\<lambda>n l. True"] assms(3) show ?thesis unfolding gs_closed_def by blast
qed

lemma scrape_loop_preserves:
  assumes "scrape_loop fetch as errs e = Done (errs', e')" and "\<And>W. gs_closed W P"
    and "\<And>r. P r \<Longrightarrow> P (ensure_adhoc (namespace e) ''up'' r)" and "P (metrics e)"
  shows "P (metrics e')"
  using assms(1,3,4)
proof (induction as arbitrary: errs e)
  case Nil
  then show ?case by simp
next
  case (Cons addr rest)
  from Cons.prems(1) obtain res reg rd reg' where u: "scrape_codis_uri (fetch addr) addr (metrics e) (mtx_readers e) = URet res reg rd"
    and s: "set_metric (namespace e) rd \<lparr>sr_name = ''up'', sr_addr = addr, sr_value = up_value res\<rparr> reg = Done reg'"
    and l: "scrape_loop fetch rest (if res = None then errs else Suc errs) (e\<lparr>metrics := reg', mtx_readers := rd\<rparr>) =
           Done (errs', e')"
    by (rule scrape_loop_Cons_Done)
  have "P reg" using scrape_codis_uri_preserves [OF u assms(2) Cons.prems(3)] .
  then have "P reg'" using set_metric_preserves [OF s assms(2)] Cons.prems(2) by simp
  with Cons.IH [OF l] Cons.prems(2) show ?case by simp
qed

lemma names_ok_ensure_adhoc: "names_ok ns r \<Longrightarrow> names_ok ns (ensure_adhoc ns ''up'' r)"
  by (auto simp: names_ok_def ensure_adhoc_def lookup_update' new_gauge_vec_def)

lemma has_vec_ensure_adhoc: "n \<noteq> m \<Longrightarrow> has_vec (ensure_adhoc ns m r) n k = has_vec r n k"
  by (simp add: has_vec_def ensure_adhoc_def lookup_update')

lemma catalog_ok_ensure_adhoc: "catalog_ok r \<Longrightarrow> catalog_ok (ensure_adhoc ns ''up'' r)"
proof -
  assume c: "catalog_ok r"
  have "''up'' \<notin> set (map snd metric_map @ proxy_written)"
    by (simp add: metric_map_def proxy_written_def)
  then have "list_all (\<lambda>n. has_vec (ensure_adhoc ns ''up'' r) n 2) (map snd metric_map @ proxy_written) =
      list_all (\<lambda>n. has_vec r n 2) (map snd metric_map @ proxy_written)"
    by (intro list_all_cong refl) (metis has_vec_ensure_adhoc)
  with c show ?thesis by (simp add: catalog_ok_def has_vec_ensure_adhoc)
qed

lemma scrape_loop_completes:
  assumes "\<forall>a \<in> set as. \<forall>reg rd. catalog_ok reg \<longrightarrow> (\<exists>res reg'. scrape_codis_uri (fetch a) a reg rd = URet res reg' rd)"
    and "mtx_readers e = 0" and "up_ok (metrics e)" and "catalog_ok (metrics e)"
  shows "\<exists>x. scrape_loop fetch as errs e = Done x"
  using assms
proof (induction as arbitrary: errs e)
  case Nil
  then show ?case by simp
next
  case (Cons addr rest)
  obtain res reg where u: "scrape_codis_uri (fetch addr) addr (metrics e) (mtx_readers e) = URet res reg (mtx_readers e)"
    using Cons.prems(1,4) by (meson list.set_intros(1))
  let ?src = "\<lparr>sr_name = ''up'', sr_addr = addr, sr_value = up_value res\<rparr>"
  have up: "Mapping.lookup reg ''up'' = Mapping.lookup (metrics e) ''up''" using u by (rule scrape_codis_uri_up)
  have lab: "\<forall>gv. Mapping.lookup reg (sr_name ?src) = Some gv \<longrightarrow> gv_labels gv = [''addr'']"
    using up Cons.prems(3) by (simp add: up_ok_def)
  obtain reg' where s: "set_metric (namespace e) (mtx_readers e) ?src reg = Done reg'"
    using set_metric_not_Hang [OF _ lab, of "mtx_readers e" "namespace e"] Cons.prems(2) by auto
  have "up_ok reg'" using scrape_loop_step(1) [OF u s Cons.prems(3)] .
  moreover have "catalog_ok reg"
    using scrape_codis_uri_preserves [OF u gs_closed_catalog_ok Cons.prems(4)] .
  then have "catalog_ok reg'"
    using set_metric_preserves [OF s gs_closed_catalog_ok] catalog_ok_ensure_adhoc by simp
  ultimately have "\<exists>x. scrape_loop fetch rest (if res = None then errs else Suc errs)
      (e\<lparr>metrics := reg', mtx_readers := mtx_readers e\<rparr>) = Done x"
    using Cons.prems(1,2) by (intro Cons.IH) simp_all
  with u s show ?case by simp
qed

lemma scrape_codis_uri_error_leaks:
  assumes "scrape_codis_uri (Resp s (Json j)) addr reg rd = URet res reg' rd'"
    and "unmarshal_obj j = Some result" and "doc_sections result = Inr (st, ss, ms)"
    and "\<forall>r. scrape_redis_stats addr ss reg \<noteq> Ok r"
  shows "rd' = Suc rd"
proof (cases "scrape_redis_stats addr ss reg")
  case (Panic p)
  with assms(1-3) show ?thesis by (simp add: scrape_codis_uri_def scrape_body_def)
next
  case (Err x r)
  with assms(1-3) show ?thesis by (simp add: scrape_codis_uri_def scrape_body_def)
next
  case (Ok r)
  with assms(4) show ?thesis by simp
qed

lemma scrape_loop_leaks:
  assumes "scrape_loop fetch as errs e = Done (errs', e')" and "a \<in> set as"
    and "fetch a = Resp s (Json j)" and "unmarshal_obj j = Some result" and "doc_sections result = Inr (st, ss, ms)"
    and "\<forall>reg r. scrape_redis_stats a ss reg \<noteq> Ok r"
  shows "mtx_readers e < mtx_readers e'"
  using assms(1,2)
proof (induction as arbitrary: errs e)
  case Nil
  then show ?case by simp
next
  case (Cons addr rest)
  from Cons.prems(1) obtain res reg rd reg' where u: "scrape_codis_uri (fetch addr) addr (metrics e) (mtx_readers e) = URet res reg rd"
    and l: "scrape_loop fetch rest (if res = None then errs else Suc errs) (e\<lparr>metrics := reg', mtx_readers := rd\<rparr>) =
           Done (errs', e')"
    by (rule scrape_loop_Cons_Done)
  have le: "rd \<le> mtx_readers e'" using scrape_loop_fields [OF l] by simp
  show ?case
  proof (cases "addr = a")
    case True
    with u assms(3) have "rd = Suc (mtx_readers e)"
      using scrape_codis_uri_error_leaks [OF _ assms(4,5)] assms(6) by auto
    with le show ?thesis by simp
  next
    case False
    with Cons.prems(2) have "a \<in> set rest" by simp
    from Cons.IH [OF l this] scrape_codis_uri_readers [OF u] show ?thesis by simp
  qed
qed

subsection \<open>A whole pass\<close>

lemma names_ok_init_gauges: "names_ok ns init_gauges"
  unfolding names_ok_def
proof (intro allI impI)
  fix n gv
  assume g: "Mapping.lookup init_gauges n = Some gv"
  then have "n \<noteq> ''up''" by auto
  with g show "gv_name gv = (if n = ''up'' then build_fq_name ns n else build_fq_name codis_namespace n)"
    by (auto simp: lookup_init_gauges new_gauge_vec_def split: if_splits)
qed

lemma up_ok_init_gauges: "up_ok init_gauges"
  by (simp add: up_ok_def)

lemma collect_Done:
  assumes "collect fetch t0 t1 e = Done (e', out)"
  obtains errs e2 where
    "scrape_loop fetch (codis e) 0 (e\<lparr>metrics := init_gauges, total_scrapes := Suc (total_scrapes e)\<rparr>) = Done (errs, e2)"
    and "e' = e2\<lparr>scrape_errors := Num (of_nat errs), duration := Num (of_int (t1 - t0) / 1000000000)\<rparr>"
    and "out = bookkeeping e' @ collect_metrics (metrics e')"
  using assms by (auto simp: collect_def Let_def split: pass.splits)

lemma scrape_loop_leaked:
  assumes "0 < mtx_readers e" and "Mapping.lookup (metrics e) ''up'' = None"
  shows "scrape_loop fetch (addr # rest) errs e = Hang \<or> (\<exists>p. scrape_loop fetch (addr # rest) errs e = Crash p)"
proof (cases "scrape_codis_uri (fetch addr) addr (metrics e) (mtx_readers e)")
  case (UPanic p)
  then show ?thesis by simp
next
  case (URet res reg rd)
  have "Mapping.lookup reg ''up'' = None" using scrape_codis_uri_up [OF URet] assms(2) by simp
  moreover have "0 < rd" using scrape_codis_uri_readers [OF URet] assms(1) by simp
  ultimately show ?thesis using URet by (simp add: set_metric_Hang)
qed

lemmas pass_eval = collect_def new_codis_collector_def scrape_codis_uri_def set_metric_def Let_def reg_eval up_value_def

text \<open>
  C13. The registry is rebuilt by every pass: the outcome of \<^verbatim>\<open>Collect\<close> does not depend on
  the vectors left by the previous pass, so no series of an earlier pass survives unless
  this pass writes it again.
\<close>

theorem collect_resets_registry: "collect fetch t0 t1 (e\<lparr>metrics := m\<rparr>) = collect fetch t0 t1 e"
  by (simp add: collect_def)

text \<open>
  C14. After a pass that completes, the registry holds exactly the vectors of the static
  catalog, plus the ad hoc \<^verbatim>\<open>up\<close> vector when at least one endpoint is configured.
\<close>

theorem collect_registry_keys:
  assumes "collect fetch t0 t1 e = Done (e', out)"
  shows "Mapping.keys (metrics e') = Mapping.keys init_gauges \<union> (if codis e = [] then {} else {''up''})"
proof (rule collect_Done [OF assms])
  fix errs e2
  assume l: "scrape_loop fetch (codis e) 0 (e\<lparr>metrics := init_gauges, total_scrapes := Suc (total_scrapes e)\<rparr>) = Done (errs, e2)"
    and "e' = e2\<lparr>scrape_errors := Num (of_nat errs), duration := Num (of_int (t1 - t0) / 1000000000)\<rparr>"
  with scrape_loop_keys [OF l] up_ok_init_gauges show ?thesis by simp
qed

theorem collect_registry_keys_witness:
  "\<exists>e' out. collect (\<lambda>a. GetFailed) 0 1 (new_codis_collector [''a'', ''b''] ''codis'') = Done (e', out) \<and>
     Mapping.keys (metrics e') = insert ''up'' (Mapping.keys init_gauges)"
proof -
  have "\<exists>e' out. collect (\<lambda>a. GetFailed) 0 1 (new_codis_collector [''a'', ''b''] ''codis'') = Done (e', out)"
    by (simp add: pass_eval)
  then obtain e' out where c: "collect (\<lambda>a. GetFailed) 0 1 (new_codis_collector [''a'', ''b''] ''codis'') = Done (e', out)"
    by blast
  from collect_registry_keys [OF c] have "Mapping.keys (metrics e') = insert ''up'' (Mapping.keys init_gauges)"
    by (simp add: new_codis_collector_def)
  with c show ?thesis by blast
qed

text \<open>
  C15. Liveness series and error gauge: after a pass that completes over distinct
  endpoint addresses, every configured endpoint has \<^verbatim>\<open>up\<close> 0 or 1, no other address has
  one, and \<^verbatim>\<open>exporter_last_scrape_error\<close> is the number of endpoints whose \<^verbatim>\<open>up\<close> is 0.
\<close>

theorem collect_up_series:
  assumes "collect fetch t0 t1 e = Done (e', out)" and "distinct (codis e)"
  shows "(\<forall>a. a \<notin> set (codis e) \<longrightarrow> sample_of (metrics e') ''up'' [a] = None) \<and>
         (\<forall>a \<in> set (codis e). sample_of (metrics e') ''up'' [a] \<in> {Some (Num 0), Some (Num 1)}) \<and>
         scrape_errors e' = Num (of_nat (length (filter (\<lambda>a. sample_of (metrics e') ''up'' [a] = Some (Num 0)) (codis e))))"
proof (rule collect_Done [OF assms(1)])
  fix errs e2
  assume l: "scrape_loop fetch (codis e) 0 (e\<lparr>metrics := init_gauges, total_scrapes := Suc (total_scrapes e)\<rparr>) = Done (errs, e2)"
    and "e' = e2\<lparr>scrape_errors := Num (of_nat errs), duration := Num (of_int (t1 - t0) / 1000000000)\<rparr>"
  with scrape_loop_up [OF l _ assms(2)] up_ok_init_gauges show ?thesis by simp
qed

theorem collect_up_series_witness:
  "\<exists>e' out. collect (\<lambda>a. if a = ''a'' then GetFailed else Resp 200 (Json (GObj [(''stats'', GObj [(''group'', GObj [(''stats'', GObj []), (''models'', GArr [])]), (''proxy'', GObj [])])]))) 0 1
       (new_codis_collector [''a'', ''b''] ''codis'') = Done (e', out) \<and>
     sample_of (metrics e') ''up'' [''a''] = Some (Num 0) \<and> sample_of (metrics e') ''up'' [''b''] = Some (Num 1) \<and>
     scrape_errors e' = Num 1"
proof -
  have "\<exists>e' out. collect (\<lambda>a. if a = ''a'' then GetFailed else Resp 200 (Json (GObj [(''stats'', GObj [(''group'', GObj [(''stats'', GObj []), (''models'', GArr [])]), (''proxy'', GObj [])])]))) 0 1
       (new_codis_collector [''a'', ''b''] ''codis'') = Done (e', out) \<and>
     sample_of (metrics e') ''up'' [''a''] = Some (Num 0) \<and> sample_of (metrics e') ''up'' [''b''] = Some (Num 1)"
    by (simp add: pass_eval nav_defs)
  then obtain e' out where c: "collect (\<lambda>a. if a = ''a'' then GetFailed else Resp 200 (Json (GObj [(''stats'', GObj [(''group'', GObj [(''stats'', GObj []), (''models'', GArr [])]), (''proxy'', GObj [])])]))) 0 1
       (new_codis_collector [''a'', ''b''] ''codis'') = Done (e', out)"
    and a: "sample_of (metrics e') ''up'' [''a''] = Some (Num 0)" and b: "sample_of (metrics e') ''up'' [''b''] = Some (Num 1)"
    by blast
  from collect_up_series [OF c] a b have "scrape_errors e' = Num 1" by (simp add: new_codis_collector_def)
  with c a b show ?thesis by blast
qed

text \<open>
  C16. An unreachable endpoint (transport error of \<^verbatim>\<open>http.Get\<close>) has \<^verbatim>\<open>up\<close> 0 after a
  pass that completes.
\<close>

theorem collect_unreachable_up:
  assumes "collect fetch t0 t1 e = Done (e', out)" and "distinct (codis e)"
    and "a \<in> set (codis e)" and "fetch a = GetFailed"
  shows "sample_of (metrics e') ''up'' [a] = Some (Num 0)"
proof (rule collect_Done [OF assms(1)])
  fix errs e2
  assume l: "scrape_loop fetch (codis e) 0 (e\<lparr>metrics := init_gauges, total_scrapes := Suc (total_scrapes e)\<rparr>) = Done (errs, e2)"
    and "e' = e2\<lparr>scrape_errors := Num (of_nat errs), duration := Num (of_int (t1 - t0) / 1000000000)\<rparr>"
  with scrape_loop_up [OF l _ assms(2)] up_ok_init_gauges assms(3,4) show ?thesis by simp
qed

theorem collect_unreachable_up_witness:
  "\<exists>e' out. collect (\<lambda>a. GetFailed) 0 1 (new_codis_collector [''a''] ''codis'') = Done (e', out) \<and>
     sample_of (metrics e') ''up'' [''a''] = Some (Num 0)"
proof -
  have "\<exists>e' out. collect (\<lambda>a. GetFailed) 0 1 (new_codis_collector [''a''] ''codis'') = Done (e', out)"
    by (simp add: pass_eval)
  then obtain e' out where c: "collect (\<lambda>a. GetFailed) 0 1 (new_codis_collector [''a''] ''codis'') = Done (e', out)"
    by blast
  have "sample_of (metrics e') ''up'' [''a''] = Some (Num 0)"
    by (rule collect_unreachable_up [OF c]) (simp_all add: new_codis_collector_def)
  with c show ?thesis by blast
qed

text \<open>
  C17. \<^verbatim>\<open>exporter_scrapes_total\<close> grows by exactly one per completed pass, whatever the
  number of endpoints visited.
\<close>

theorem collect_total_scrapes:
  "collect fetch t0 t1 e = Done (e', out) \<Longrightarrow> total_scrapes e' = Suc (total_scrapes e)"
  by (erule collect_Done) (auto dest: scrape_loop_fields)

theorem collect_total_scrapes_witness:
  "\<exists>e' out. collect (\<lambda>a. GetFailed) 0 1 (new_codis_collector [''a'', ''b''] ''codis'') = Done (e', out) \<and>
     total_scrapes e' = 1"
proof -
  have "\<exists>e' out. collect (\<lambda>a. GetFailed) 0 1 (new_codis_collector [''a'', ''b''] ''codis'') = Done (e', out)"
    by (simp add: pass_eval)
  then obtain e' out where c: "collect (\<lambda>a. GetFailed) 0 1 (new_codis_collector [''a'', ''b''] ''codis'') = Done (e', out)"
    by blast
  from collect_total_scrapes [OF c] have "total_scrapes e' = 1" by (simp add: new_codis_collector_def)
  with c show ?thesis by blast
qed

text \<open>
  C18. Once a read lock on \<^verbatim>\<open>metricsMtx\<close> has been leaked by an endpoint whose extraction
  returned an error, no later pass with a configured endpoint completes: the first
  \<^verbatim>\<open>up\<close> result waits for ever for the write lock (or the pass crashes earlier).
\<close>

theorem collect_blocked_after_leak:
  assumes "0 < mtx_readers e" and "codis e \<noteq> []"
  shows "collect fetch t0 t1 e = Hang \<or> (\<exists>p. collect fetch t0 t1 e = Crash p)"
proof -
  obtain addr rest where c: "codis e = addr # rest" using assms(2) by (cases "codis e") auto
  let ?e1 = "e\<lparr>metrics := init_gauges, total_scrapes := Suc (total_scrapes e)\<rparr>"
  have "scrape_loop fetch (addr # rest) 0 ?e1 = Hang \<or> (\<exists>p. scrape_loop fetch (addr # rest) 0 ?e1 = Crash p)"
    using assms(1) by (intro scrape_loop_leaked) simp_all
  then show ?thesis using c by (auto simp: collect_def)
qed

theorem collect_blocked_after_leak_witness:
  "collect (\<lambda>a. GetFailed) 0 1 ((new_codis_collector [''a''] ''codis'')\<lparr>mtx_readers := 1\<rparr>) = Hang"
proof -
  have "collect (\<lambda>a. GetFailed) 0 1 ((new_codis_collector [''a''] ''codis'')\<lparr>mtx_readers := 1\<rparr>) = Hang \<or>
    (\<exists>p. collect (\<lambda>a. GetFailed) 0 1 ((new_codis_collector [''a''] ''codis'')\<lparr>mtx_readers := 1\<rparr>) = Crash p)"
    by (rule collect_blocked_after_leak) (simp_all add: new_codis_collector_def)
  moreover have "\<forall>p. collect (\<lambda>a. GetFailed) 0 1 ((new_codis_collector [''a''] ''codis'')\<lparr>mtx_readers := 1\<rparr>) \<noteq> Crash p"
    by (simp add: pass_eval)
  ultimately show ?thesis by blast
qed

text \<open>
  C20. Vector names: after a pass that completes, the ad hoc \<^verbatim>\<open>up\<close> vector is named under
  the exporter's namespace, but every catalog vector under the fixed prefix
  \<^verbatim>\<open>codis\<close>, whatever namespace the exporter was created with.
\<close>

theorem collect_vector_names:
  assumes "collect fetch t0 t1 e = Done (e', out)" and "Mapping.lookup (metrics e') n = Some gv"
  shows "gv_name gv = (if n = ''up'' then build_fq_name (namespace e) n else build_fq_name codis_namespace n)"
proof (rule collect_Done [OF assms(1)])
  fix errs e2
  assume l: "scrape_loop fetch (codis e) 0 (e\<lparr>metrics := init_gauges, total_scrapes := Suc (total_scrapes e)\<rparr>) = Done (errs, e2)"
    and e': "e' = e2\<lparr>scrape_errors := Num (of_nat errs), duration := Num (of_int (t1 - t0) / 1000000000)\<rparr>"
  have "names_ok (namespace e) (metrics e2)"
    using scrape_loop_preserves [OF l gs_closed_names] names_ok_ensure_adhoc names_ok_init_gauges by simp
  with assms(2) e' show ?thesis by (simp add: names_ok_def)
qed

theorem collect_vector_names_witness:
  "\<exists>e' out. collect (\<lambda>a. GetFailed) 0 1 (new_codis_collector [''a''] ''redis'') = Done (e', out) \<and>
     map_option gv_name (Mapping.lookup (metrics e') ''up'') = Some ''redis_up'' \<and>
     map_option gv_name (Mapping.lookup (metrics e') ''redis_used_memory'') = Some ''codis_redis_used_memory''"
proof -
  have "\<exists>e' out. collect (\<lambda>a. GetFailed) 0 1 (new_codis_collector [''a''] ''redis'') = Done (e', out)"
    by (simp add: pass_eval)
  then obtain e' out where c: "collect (\<lambda>a. GetFailed) 0 1 (new_codis_collector [''a''] ''redis'') = Done (e', out)"
    by blast
  have keys: "Mapping.keys (metrics e') = Mapping.keys init_gauges \<union> {''up''}"
    using collect_registry_keys [OF c] by (simp add: new_codis_collector_def)
  have "''up'' \<in> Mapping.keys (metrics e')" "''redis_used_memory'' \<in> Mapping.keys (metrics e')"
    by (simp_all add: keys keys_init_gauges metric_map_def)
  then obtain g1 g2 where g1: "Mapping.lookup (metrics e') ''up'' = Some g1"
      and g2: "Mapping.lookup (metrics e') ''redis_used_memory'' = Some g2"
    by (auto simp: keys_dom_lookup)
  have "gv_name g1 = ''redis_up''"
    using collect_vector_names [OF c g1] by (simp add: new_codis_collector_def build_fq_name_def)
  moreover have "gv_name g2 = ''codis_redis_used_memory''"
    using collect_vector_names [OF c g2] by (simp add: build_fq_name_def codis_namespace_def)
  ultimately show ?thesis using c g1 g2 by auto
qed

text \<open>
  C22. Over successive passes that all complete, \<^verbatim>\<open>exporter_scrapes_total\<close> equals its
  initial value plus the number of passes, and each pass published one batch of samples.
\<close>

theorem run_collects_total_scrapes:
  "run_collects ps e = (outs, Done e') \<Longrightarrow> total_scrapes e' = total_scrapes e + length ps \<and> length outs = length ps"
proof (induction ps arbitrary: e outs)
  case Nil
  then show ?case by simp
next
  case (Cons p ps)
  obtain fetch t0 t1 where p: "p = (fetch, t0, t1)" by (cases p) auto
  from Cons.prems p obtain e1 out outs' where c: "collect fetch t0 t1 e = Done (e1, out)"
      and r: "run_collects ps e1 = (outs', Done e')" and o: "outs = out # outs'"
    by (auto split: pass.splits prod.splits)
  have "total_scrapes e1 = Suc (total_scrapes e)"
    by (rule collect_Done [OF c]) (auto dest: scrape_loop_fields)
  with Cons.IH [OF r] o show ?case by simp
qed

theorem run_collects_total_scrapes_witness:
  "\<exists>outs e'. run_collects [(\<lambda>a. GetFailed, 0, 1), (\<lambda>a. GetFailed, 2, 3)] (new_codis_collector [''a'', ''b''] ''codis'') =
     (outs, Done e') \<and> total_scrapes e' = 2"
proof -
  have "\<exists>outs e'. run_collects [(\<lambda>a. GetFailed, 0, 1), (\<lambda>a. GetFailed, 2, 3)] (new_codis_collector [''a'', ''b''] ''codis'') =
     (outs, Done e')"
    by (simp add: pass_eval)
  then obtain outs e' where r: "run_collects [(\<lambda>a. GetFailed, 0, 1), (\<lambda>a. GetFailed, 2, 3)]
      (new_codis_collector [''a'', ''b''] ''codis'') = (outs, Done e')" by blast
  from run_collects_total_scrapes [OF r] have "total_scrapes e' = 2" by (simp add: new_codis_collector_def)
  with r show ?thesis by blast
qed

text \<open>
  C25. The orchestrator itself neither crashes nor blocks: when no read lock is held at
  the start and every endpoint, from any registry holding the catalog, returns without a
  panic and without keeping a read lock (it may write samples and may fail), the pass
  completes.
\<close>

theorem collect_completes:
  assumes "\<forall>a \<in> set (codis e). \<forall>reg rd. catalog_ok reg \<longrightarrow>
             (\<exists>res reg'. scrape_codis_uri (fetch a) a reg rd = URet res reg' rd)"
    and "mtx_readers e = 0"
  shows "\<exists>e' out. collect fetch t0 t1 e = Done (e', out)"
proof -
  let ?e1 = "e\<lparr>metrics := init_gauges, total_scrapes := Suc (total_scrapes e)\<rparr>"
  obtain x where "scrape_loop fetch (codis e) 0 ?e1 = Done x"
    using scrape_loop_completes [of "codis e" fetch ?e1 0] assms up_ok_init_gauges catalog_ok_init_gauges by auto
  then show ?thesis by (cases x) (simp add: collect_def Let_def)
qed



subsection \<open>Reachable exporters\<close>





end
