(* ===== verification/Spec2Isabelle.thy ===== *)
theory Spec2Isabelle
  imports Exporter
begin

text \<open>
  \<^bold>\<open>A model of the Codis exporter.\<close>
  The repository is one Go file, \<^verbatim>\<open>src/collector/codis_collector.go\<close>: a Prometheus
  collector that, on every scrape, polls the HTTP statistics endpoint of one or more
  Codis dashboards, walks the decoded JSON document and republishes the values as gauge
  vectors. Its parts, and the theory that models each:

  \<^item> \<^emph>\<open>Go values and runtime\<close> (\<open>Go_Prelude\<close>, \<open>Go_Values\<close>, \<open>Parse_Float\<close>): the
    decoded JSON values (\<open>gval\<close>), map indexing, the single-value type assertions that
    panic (\<open>as_obj\<close>, \<open>as_arr\<close>, \<open>as_float\<close>, \<open>as_bool\<close>), \<^verbatim>\<open>fmt.Sprintf("%s", v)\<close>
    (\<open>fmt_val\<close>) and \<^verbatim>\<open>strconv.ParseFloat\<close> (\<open>parse_float\<close>). Panics and errors are
    values: \<open>'a go\<close> (panic or value) and \<open>'s outcome\<close> (panic, error with the state
    reached, or normal end), with the loop combinators \<open>geach\<close> and \<open>oeach\<close> for Go's
    \<^verbatim>\<open>for ... range\<close>.
  \<^item> \<^emph>\<open>Metric registry\<close> (\<open>Registry\<close>): \<^verbatim>\<open>Exporter.metrics\<close> as a map from names to
    gauge vectors; the static catalog \<^verbatim>\<open>metricMap\<close>/\<^verbatim>\<open>proxyMetricMap\<close>,
    \<^verbatim>\<open>initGauges\<close> (\<open>init_gauges\<close>), \<^verbatim>\<open>WithLabelValues(...).Set\<close> (\<open>gauge_set\<close>),
    the ad hoc vector creation of \<^verbatim>\<open>setMetrics\<close> (\<open>ensure_adhoc\<close>) and
    \<^verbatim>\<open>collectMetrics\<close> (\<open>collect_metrics\<close>).
  \<^item> \<^emph>\<open>Stat tree navigator\<close> (\<open>Navigator\<close>): the body of \<^verbatim>\<open>scrapeCodisUri\<close> after
    decoding, one definition per loop of the source: storage-node fields
    (\<open>redis_field\<close>, \<open>redis_server\<close>, \<open>scrape_redis_stats\<close>), the replication map
    (\<open>build_repl_map\<close>, \<open>emit_repl\<close>), the proxy token map (\<open>build_token_map\<close>) and the
    proxy fields (\<open>proxy_stats\<close>, \<open>scrape_proxy_stats\<close>), composed by \<open>scrape_body\<close>.
  \<^item> \<^emph>\<open>Endpoint fetcher and pass orchestrator\<close> (\<open>Exporter\<close>): the \<^verbatim>\<open>Exporter\<close>
    struct (\<open>exporter\<close>), \<^verbatim>\<open>scrapeCodisUri\<close> with its read lock on \<^verbatim>\<open>metricsMtx\<close>
    (\<open>scrape_codis_uri\<close>), one iteration of \<^verbatim>\<open>setMetrics\<close> with its write lock
    (\<open>set_metric\<close>), the producer loop of \<^verbatim>\<open>scrape\<close> interleaved with the consumer
    (\<open>scrape_loop\<close>), \<^verbatim>\<open>Collect\<close> (\<open>collect\<close>) and successive passes
    (\<open>run_collects\<close>).

  \<^bold>\<open>Choices.\<close> Go maps are association lists in the order one \<^verbatim>\<open>range\<close> visits
  them; the theorems hold for every order. A float64 is kept exactly (as a real, or as
  its shortest decimal representation in a decoded document). HTTP is an input: a pass
  takes, for each address, the response it gets. The producer and the consumer of the
  unbuffered channel are interleaved so that each result is consumed before the next
  endpoint is visited; the read locks kept by an error are the only lock state that
  outlives a step, and a write lock requested while one is kept never returns (\<open>Hang\<close>).

  \<^bold>\<open>What is proved.\<close>
  \<^item> Extraction (\<open>Navigator\<close>): with the catalog in place, the only panics are failed
    type assertions (C1); each catalog field of a node ends up as its parsed value
    (C2, C21), a field that does not parse, or is not a JSON string, aborts the endpoint
    (C3, C4); the role gauge (C5); the replication map and its two-valued gauge
    (C6--C8); proxy statistics: untokened entries are ignored (C9), the failure count
    comes from the \<^verbatim>\<open>ops\<close> key (C10), the unguarded \<^verbatim>\<open>sessions.total\<close>
    assertion (C11) and the guarded \<^verbatim>\<open>sessions.alive\<close> default (C12); the token map
    against its reference \<open>token_entry\<close> (C23) and the token a model without one
    carries over (C24).
  \<^item> Passes (\<open>Exporter\<close>): the registry is rebuilt every pass (C13) and holds the
    catalog plus \<^verbatim>\<open>up\<close> (C14); the \<^verbatim>\<open>up\<close> series and the error gauge agree
    (C15, C16); the scrape counter counts passes (C17, C22); after a leaked read lock
    no pass completes (C18), while without one and with endpoints whose scrape returns
    every pass completes (C25); vector names (C20); the samples a completed pass sends
    are exactly the bookkeeping samples and the registry's samples (C27). The exporters
    reachable by completed passes (\<open>reachable\<close>, an inductive relation indexed by the
    number of passes) were each reached by a pass that started without a leaked lock
    (C26).
  \<^item> End to end (this theory): a completed pass that meets an unparsable storage-node
    field keeps a read lock (C19), so by C18 no later pass completes.
  Every theorem with a hypothesis has a witness that applies it to a concrete input.

  \<^bold>\<open>Findings.\<close> The read lock taken at line 204 is leaked by the error return at
  line 214, which blocks every later pass (C18, C19); the replication state of a
  descriptor depends on Go's map order (C7); \<^verbatim>\<open>proxy_ops_fails\<close> reads the
  \<^verbatim>\<open>ops\<close> key (C10); fields sent as JSON numbers are rejected (C4); several proxy
  leaves panic instead of defaulting (C11); the counter counts passes, not endpoints
  (C17); the catalog ignores the exporter's namespace (C20); a proxy model without a
  token reuses the previous token (C24).

  \<^bold>\<open>Bounds and termination.\<close> Every loop of the source ranges over a finite map or
  slice and is modelled by structural recursion (\<open>geach\<close>, \<open>oeach\<close>,
  \<open>scrape_loop\<close>, \<open>run_collects\<close>), so every definition is total and no fuel is
  needed; the one way a pass fails to return, a blocked \<^verbatim>\<open>Lock\<close>, is the value
  \<open>Hang\<close>. C21 is stated for naturals of at most \<open>2\<^sup>5\<^sup>3\<close>: every such integer is a
  binary64 value, so \<^verbatim>\<open>ParseFloat\<close> returns it exactly and the model's exact reading
  agrees with the rounded one there.

  \<^bold>\<open>What is not modelled.\<close> The HTTP server and flag parsing (not in this repository),
  \<^verbatim>\<open>Describe\<close> (it changes no state), the Prometheus text exposition, logging, JSON
  text decoding (its result is the input), hexadecimal and underscore forms of
  \<^verbatim>\<open>ParseFloat\<close>, rounding to binary64, and the data race between the producer's
  writes to \<^verbatim>\<open>e.metrics\<close> and the consumer's reads (the model takes the channel's
  interleaving, in which they alternate).
\<close>

subsection \<open>Two documents\<close>

text \<open>
  The endpoint body of the specification's example, and a body whose only storage-node
  field does not parse as a float.
\<close>

definition example_doc :: gval where
  "example_doc =
     GObj [(''stats'', GObj [
       (''group'', GObj [(''stats'', GObj [(''10.0.0.1:6379'', GObj [(''stats'', GObj [(''used_memory'', GStr ''100'')])])]),
                        (''models'', GArr [])]),
       (''proxy'', GObj [])])]"

definition bad_field_doc :: gval where
  "bad_field_doc =
     GObj [(''stats'', GObj [
       (''group'', GObj [(''stats'', GObj [(''n1'', GObj [(''stats'', GObj [(''maxmemory'', GStr ''12MB'')])])]),
                        (''models'', GArr [])]),
       (''proxy'', GObj [])])]"

subsection \<open>The leaked read lock\<close>

text \<open>
  C19. The read lock leaks: a completed pass that visited an endpoint whose document has a
  storage-node catalog field that does not parse ends with more read locks on
  \<^verbatim>\<open>metricsMtx\<close> than it started with (the error return at line 214 comes before the
  deferred \<^verbatim>\<open>RUnlock\<close>). By C18, no later pass with a configured endpoint completes.
\<close>

theorem collect_parse_error_leaks:
  assumes c: "collect fetch t0 t1 e = Done (e', out)" and a: "a \<in> set (codis e)"
    and f: "fetch a = Resp s (Json j)" and u: "unmarshal_obj j = Some result"
    and d: "doc_sections result = Inr (st, ss, ms)"
    and node: "map_of ss key = Some (GObj redisS)" and sts: "go_index redisS ''stats'' = GObj redisStats"
    and fld: "map_of redisStats k = Some v" and cat: "map_of metric_map k = Some name"
    and bad: "parse_float (fmt_s v) = None"
  shows "mtx_readers e < mtx_readers e'"
proof (rule collect_Done [OF c])
  fix errs e2
  assume l: "scrape_loop fetch (codis e) 0 (e\<lparr>metrics := init_gauges, total_scrapes := Suc (total_scrapes e)\<rparr>) =
      Done (errs, e2)"
    and e': "e' = e2\<lparr>scrape_errors := Num (of_nat errs), duration := Num (of_int (t1 - t0) / 1000000000)\<rparr>"
  have "\<forall>reg r. scrape_redis_stats a ss reg \<noteq> Ok r"
    using redis_parse_error_not_Ok [OF map_of_SomeD [OF node] sts map_of_SomeD [OF fld] cat bad] by blast
  from scrape_loop_leaks [OF l _ f u d this] a e' show ?thesis by simp
qed

theorem collect_parse_error_leaks_witness:
  "\<exists>e' out. collect (\<lambda>a. if a = ''a'' then Resp 200 (Json example_doc) else Resp 200 (Json bad_field_doc)) 0 1
       (new_codis_collector [''a'', ''b''] ''codis'') = Done (e', out) \<and> 0 < mtx_readers e'"
proof -
  have "\<exists>e' out. collect (\<lambda>a. if a = ''a'' then Resp 200 (Json example_doc) else Resp 200 (Json bad_field_doc)) 0 1
       (new_codis_collector [''a'', ''b''] ''codis'') = Done (e', out)"
    by (simp add: pass_eval example_doc_def bad_field_doc_def nav_defs parse_eval)
  then obtain e' out where c: "collect (\<lambda>a. if a = ''a'' then Resp 200 (Json example_doc) else Resp 200 (Json bad_field_doc))
      0 1 (new_codis_collector [''a'', ''b''] ''codis'') = Done (e', out)" by blast
  have "mtx_readers (new_codis_collector [''a'', ''b''] ''codis'') < mtx_readers e'"
  proof (rule collect_parse_error_leaks [OF c, where a = "''b''" and s = 200 and j = bad_field_doc
        and key = "''n1''" and k = "''maxmemory''" and v = "GStr ''12MB''" and name = "''redis_maxmemory''"
        and redisS = "[(''stats'', GObj [(''maxmemory'', GStr ''12MB'')])]"
        and redisStats = "[(''maxmemory'', GStr ''12MB'')]"])
    let ?ss = "[(''n1'', GObj [(''stats'', GObj [(''maxmemory'', GStr ''12MB'')])])]"
    let ?st = "[(''group'', GObj [(''stats'', GObj ?ss), (''models'', GArr [])]), (''proxy'', GObj [])]"
    show "unmarshal_obj bad_field_doc = Some [(''stats'', GObj ?st)]" by (simp add: bad_field_doc_def)
    show "doc_sections [(''stats'', GObj ?st)] = Inr (?st, ?ss, [])" by (simp add: doc_sections_def go_index_def)
  qed (simp_all add: new_codis_collector_def go_index_def metric_map_def parse_eval)
  with c show ?thesis by (auto simp: new_codis_collector_def)
qed

subsection \<open>A pass that writes samples completes\<close>

theorem collect_completes_witness:
  "\<exists>e' out. collect (\<lambda>a. Resp 200 (Json example_doc)) 0 1 (new_codis_collector [''http://e''] ''codis'') =
     Done (e', out)"
proof (rule collect_completes)
  show "\<forall>a \<in> set (codis (new_codis_collector [''http://e''] ''codis'')). \<forall>reg rd. catalog_ok reg \<longrightarrow>
      (\<exists>res reg'. scrape_codis_uri (Resp 200 (Json example_doc)) a reg rd = URet res reg' rd)"
  proof (intro ballI allI impI)
    fix a reg rd
    assume "a \<in> set (codis (new_codis_collector [''http://e''] ''codis''))" and cat: "catalog_ok reg"
    obtain r' where g: "gauge_set ''redis_used_memory'' [a, ''10.0.0.1:6379''] (Num 100) reg = Inr r'"
      using catalog_write_total [OF cat, of a "''redis_used_memory''" "[a, ''10.0.0.1:6379'']" "Num 100"]
      by (auto simp: nav_write_def metric_map_def)
    then show "\<exists>res reg'. scrape_codis_uri (Resp 200 (Json example_doc)) a reg rd = URet res reg' rd"
      by (simp add: scrape_codis_uri_def example_doc_def nav_defs parse_eval metric_map_def Mapping.ordered_keys_def)
  qed
  show "mtx_readers (new_codis_collector [''http://e''] ''codis'') = 0" by (simp add: new_codis_collector_def)
qed

end
